theory Spec2Isabelle
  imports Main "HOL-Library.Char_ord" "HOL-Library.List_Lexorder" "HOL-Library.Product_Lexorder"
begin

section \<open>Python strings\<close>

text \<open>
  A Python \<open>str\<close> is modelled as a \<^typ>\<open>string\<close> whose characters are code points
  (those below 256); \<open>len\<close> is \<^const>\<open>length\<close>.  The character classes of the
  \<open>re\<close> module used by the program (\<open>[a-z]\<close>, \<open>[a-zA-Z0-9]\<close>, no flags) are
  ranges of code points.
\<close>

definition code_point :: "char \<Rightarrow> nat" where
  "code_point c = of_char c"

definition is_lower_az :: "char \<Rightarrow> bool" where
  "is_lower_az c \<longleftrightarrow> 97 \<le> code_point c \<and> code_point c \<le> 122"

definition is_upper_AZ :: "char \<Rightarrow> bool" where
  "is_upper_AZ c \<longleftrightarrow> 65 \<le> code_point c \<and> code_point c \<le> 90"

definition is_digit_09 :: "char \<Rightarrow> bool" where
  "is_digit_09 c \<longleftrightarrow> 48 \<le> code_point c \<and> code_point c \<le> 57"

definition is_alnum_class :: "char \<Rightarrow> bool" where
  "is_alnum_class c \<longleftrightarrow> is_lower_az c \<or> is_upper_AZ c \<or> is_digit_09 c"

definition newline :: char where
  "newline = CHR 0x0A"

section \<open>ai_naming_agent.py: the name validator\<close>

text \<open>
  \<open>re.match(r'^[a-z][a-zA-Z0-9]*$', name)\<close>.  The match starts at the first character.
  In Python, \<open>$\<close> (without \<open>re.MULTILINE\<close>) matches at the end of the string and also
  just before a newline that is the last character of the string.  \<open>re_alnum_star_dollar\<close>
  is the residual pattern \<open>[a-zA-Z0-9]*$\<close>: either one more character of the class is
  consumed, or the star stops and \<open>$\<close> has to match here.
\<close>

definition re_dollar :: "string \<Rightarrow> bool" where
  "re_dollar rest \<longleftrightarrow> rest = [] \<or> rest = [newline]"

fun re_alnum_star_dollar :: "string \<Rightarrow> bool" where
  "re_alnum_star_dollar [] = re_dollar []"
| "re_alnum_star_dollar (c # cs) =
     ((is_alnum_class c \<and> re_alnum_star_dollar cs) \<or> re_dollar (c # cs))"

definition re_match_camel :: "string \<Rightarrow> bool" where
  "re_match_camel name =
     (case name of [] \<Rightarrow> False | c # cs \<Rightarrow> is_lower_az c \<and> re_alnum_star_dollar cs)"

definition validate_directory_name :: "string \<Rightarrow> bool" where
  "validate_directory_name name =
     (if length name > 75 then False
      else if \<not> re_match_camel name then False
      else True)"


section \<open>Python string operations used by the program\<close>

text \<open>\<open>str.isspace\<close> on code points below 256, which is what \<open>str.strip()\<close> removes.\<close>

definition py_isspace :: "char \<Rightarrow> bool" where
  "py_isspace c \<longleftrightarrow>
     (9 \<le> code_point c \<and> code_point c \<le> 13) \<or> (28 \<le> code_point c \<and> code_point c \<le> 32)
     \<or> code_point c = 133 \<or> code_point c = 160"

definition py_strip :: "string \<Rightarrow> string" where
  "py_strip s = rev (dropWhile py_isspace (rev (dropWhile py_isspace s)))"

text \<open>\<open>str.lower()\<close> on code points below 256.\<close>

definition py_lower_char :: "char \<Rightarrow> char" where
  "py_lower_char c =
     (if is_upper_AZ c \<or> (192 \<le> code_point c \<and> code_point c \<le> 222 \<and> code_point c \<noteq> 215)
      then char_of (code_point c + 32) else c)"

definition py_lower :: "string \<Rightarrow> string" where
  "py_lower s = map py_lower_char s"

text \<open>\<open>s.startswith(p)\<close>, \<open>s.endswith(p)\<close> and the substring test \<open>p in s\<close>.\<close>

definition startswith :: "string \<Rightarrow> string \<Rightarrow> bool" where
  "startswith s p \<longleftrightarrow> take (length p) s = p"

definition endswith :: "string \<Rightarrow> string \<Rightarrow> bool" where
  "endswith s p \<longleftrightarrow> startswith (rev s) (rev p)"

fun py_in :: "string \<Rightarrow> string \<Rightarrow> bool" where
  "py_in p [] = (p = [])"
| "py_in p (c # cs) = (startswith (c # cs) p \<or> py_in p cs)"

text \<open>\<open>s.replace("\\", "/")\<close>: both strings have one character.\<close>

definition replace_backslash :: "string \<Rightarrow> string" where
  "replace_backslash s = map (\<lambda>c. if c = CHR 0x5C then CHR ''/'' else c) s"

text \<open>\<open>sep.join(xs)\<close>.\<close>

fun py_join :: "string \<Rightarrow> string list \<Rightarrow> string" where
  "py_join sep [] = []"
| "py_join sep [x] = x"
| "py_join sep (x # y # ys) = x @ sep @ py_join sep (y # ys)"

text \<open>\<open>str(n)\<close> for a natural number, and \<open>str.zfill\<close>.\<close>

definition digit_char :: "nat \<Rightarrow> char" where
  "digit_char d = char_of (48 + d)"

fun str_nat :: "nat \<Rightarrow> string" where
  "str_nat n = (if n < 10 then [digit_char n] else str_nat (n div 10) @ [digit_char (n mod 10)])"

declare str_nat.simps [simp del]

definition zfill :: "nat \<Rightarrow> string \<Rightarrow> string" where
  "zfill w s = replicate (w - length s) (CHR ''0'') @ s"

text \<open>
  \<open>os.path.join\<close> of \<open>posixpath\<close>: a component that starts with the separator replaces
  what was joined so far; an empty path or one ending in the separator takes the component
  as it is; otherwise the separator is put between them.
\<close>

definition path_join_step :: "string \<Rightarrow> string \<Rightarrow> string" where
  "path_join_step path b =
     (if startswith b ''/'' then b
      else if path = [] \<or> endswith path ''/'' then path @ b
      else path @ ''/'' @ b)"

definition os_path_join :: "string \<Rightarrow> string list \<Rightarrow> string" where
  "os_path_join a ps = foldl path_join_step a ps"

text \<open>
  \<open>s.split(sep)\<close> for a separator of one character, and \<open>str(Path(s))\<close> on POSIX: pathlib
  drops the empty and the \<open>.\<close> components (so a leading \<open>./\<close>, doubled and trailing
  slashes disappear, \<open>..\<close> stays), keeps a root of one slash, or of two when the string
  starts with exactly two, and writes the path without components and root as \<open>.\<close>.
\<close>

fun py_split :: "char \<Rightarrow> string \<Rightarrow> string list" where
  "py_split sep [] = [[]]"
| "py_split sep (c # cs) =
     (if c = sep then [] # py_split sep cs
      else (case py_split sep cs of
              [] \<Rightarrow> [[c]]
            | l # ls \<Rightarrow> (c # l) # ls))"

definition pathlib_str :: "string \<Rightarrow> string" where
  "pathlib_str s =
     (let root = (if \<not> startswith s ''/'' then []
                  else if startswith s ''//'' \<and> \<not> startswith s ''///'' then ''//''
                  else ''/'');
          parts = filter (\<lambda>x. x \<noteq> [] \<and> x \<noteq> ''.'') (py_split (CHR ''/'') s);
          text = root @ py_join ''/'' parts
      in if text = [] then ''.'' else text)"

section \<open>ai_naming_agent.py: fallback name\<close>

text \<open>
  \<open>datetime.now()\<close> is an input of the model.  \<open>strftime("%Y%m%d")\<close> writes the year
  with four digits and month and day with two.  The dates considered are those from the
  year 1000 on, where the year has four digits without padding, up to \<open>datetime.MAXYEAR\<close>.
\<close>

record date =
  year :: nat
  month :: nat
  day :: nat

definition valid_date :: "date \<Rightarrow> bool" where
  "valid_date d \<longleftrightarrow> 1000 \<le> year d \<and> year d \<le> 9999 \<and> 1 \<le> month d \<and> month d \<le> 12
     \<and> 1 \<le> day d \<and> day d \<le> 31"

definition strftime_Ymd :: "date \<Rightarrow> string" where
  "strftime_Ymd d = zfill 4 (str_nat (year d)) @ zfill 2 (str_nat (month d)) @ zfill 2 (str_nat (day d))"

definition create_fallback_name :: "date \<Rightarrow> string" where
  "create_fallback_name now = ''processedAudio'' @ strftime_Ymd now"


section \<open>ai_naming_agent.py: name generation\<close>

text \<open>
  The prompt is kept as structured data: which of the two prompt builders made it, the
  analysis payload, and the feedback section.  \<open>create_naming_prompt_with_feedback\<close> adds
  the feedback section only \<open>if feedback:\<close>, so \<open>None\<close> and the empty string give the same
  prompt.
\<close>

datatype 'p prompt = NamingPrompt 'p | NamingPromptWithFeedback 'p "string option"

definition create_naming_prompt :: "'p \<Rightarrow> 'p prompt" where
  "create_naming_prompt analysis_data = NamingPrompt analysis_data"

definition create_naming_prompt_with_feedback :: "'p \<Rightarrow> string option \<Rightarrow> 'p prompt" where
  "create_naming_prompt_with_feedback analysis_data feedback =
     NamingPromptWithFeedback analysis_data
       (case feedback of None \<Rightarrow> None | Some f \<Rightarrow> if f = [] then None else Some f)"

text \<open>
  The external call \<open>self.client.messages.create(...)\<close> followed by
  \<open>response.content[0].text\<close>: either an exception is raised somewhere inside the
  \<open>try\<close> block (\<open>Raised\<close>), or the reply's text is obtained.  \<open>self.client\<close> is \<open>None\<close>
  when no API key was given.
\<close>

datatype api_outcome = Raised | Reply string

type_synonym 'p client = "('p prompt \<Rightarrow> api_outcome) option"

definition generate_directory_name :: "'p client \<Rightarrow> 'p \<Rightarrow> date \<Rightarrow> string option" where
  "generate_directory_name client analysis_data now =
     (case client of
        None \<Rightarrow> Some (create_fallback_name now)
      | Some messages_create \<Rightarrow>
          (case messages_create (create_naming_prompt analysis_data) of
             Raised \<Rightarrow> Some (create_fallback_name now)
           | Reply text \<Rightarrow>
               (let generated_name = py_strip text in
                if validate_directory_name generated_name then Some generated_name
                else Some (create_fallback_name now))))"

definition generate_directory_name_with_feedback ::
    "'p client \<Rightarrow> 'p \<Rightarrow> string option \<Rightarrow> date \<Rightarrow> string option" where
  "generate_directory_name_with_feedback client analysis_data feedback now =
     (case client of
        None \<Rightarrow> Some (create_fallback_name now)
      | Some messages_create \<Rightarrow>
          (case messages_create (create_naming_prompt_with_feedback analysis_data feedback) of
             Raised \<Rightarrow> Some (create_fallback_name now)
           | Reply text \<Rightarrow>
               (let generated_name = py_strip text in
                if validate_directory_name generated_name then Some generated_name
                else Some (create_fallback_name now))))"

section \<open>ai_naming_agent.py: routing into DATA-HOME\<close>

text \<open>
  \<open>self.data_home_mapping\<close>: content type, primary path, and the context mappings in
  insertion order (the order in which the \<open>for\<close> loop visits them).
\<close>

definition data_home_mapping :: "(string \<times> string \<times> (string \<times> string) list) list" where
  "data_home_mapping =
    [(''aud'', ''audio'',
        [(''book'', ''audio/books''), (''mus'', ''audio/music''), (''pod'', ''audio/podcasts''),
         (''rec'', ''audio/recordings''), (''game'', ''audio/soundtracks/games''),
         (''mov'', ''audio/soundtracks/movies''), (''show'', ''audio/soundtracks/television'')]),
     (''trans'', ''documents/Text Documents'',
        [(''mtg'', ''documents/professional''), (''intv'', ''documents/professional''),
         (''res'', ''documents/professional''), (''pers'', ''documents/personal''),
         (''fin'', ''documents/personal/financial''), (''med'', ''documents/personal/medical''),
         (''news'', ''documents/Text Documents'')]),
     (''doc'', ''documents'',
        [(''tmpl'', ''documents/_templates''), (''contr'', ''documents/professional/contracts''),
         (''cert'', ''documents/professional/certifications''),
         (''corr'', ''documents/professional/correspondence''),
         (''upw'', ''documents/professional/upwork''),
         (''strat'', ''documents/professional/strategicAgent''),
         (''pol'', ''documents/professional/StrategyPolitics''),
         (''fin'', ''documents/personal/financial''), (''med'', ''documents/personal/medical''),
         (''id'', ''documents/personal/identity'')]),
     (''code'', ''software'',
        [(''exp'', ''software/development/experiments''),
         (''lib'', ''software/development/libraries''), (''tool'', ''software/development/tools''),
         (''cfg'', ''software/configurations'')]),
     (''media'', ''images'',
        [(''vid'', ''video''), (''img'', ''images''), (''chart'', ''images/charts''),
         (''screenshot'', ''images/screenshots'')]),
     (''arch'', ''archives'',
        [(''bkup'', ''archives/backups''), (''dump'', ''archives/dumps''),
         (''news'', ''archives/news''), (''sci'', ''archives/scientific''),
         (''data'', ''archives/datasets'')])]"

text \<open>
  The special rule on the source path: \<open>if source_path:\<close> (neither \<open>None\<close> nor empty),
  backslashes replaced by slashes, then the two substring tests.
\<close>

definition is_news_transcript_source :: "string option \<Rightarrow> bool" where
  "is_news_transcript_source source_path =
     (case source_path of
        None \<Rightarrow> False
      | Some sp \<Rightarrow>
          if sp = [] then False
          else (let normalized_source = replace_backslash sp in
                py_in ''News/transcripts'' normalized_source
                \<or> py_in ''/News/transcripts'' normalized_source))"

text \<open>
  \<open>re.match(r'^([a-z]+)', directory_name)\<close>: group 1 is the longest run of lowercase
  letters at the start; there is no match when that run is empty.
\<close>

definition content_type_match :: "string \<Rightarrow> string option" where
  "content_type_match directory_name =
     (let run = takeWhile is_lower_az directory_name in if run = [] then None else Some run)"

definition determine_optimal_parent_directory :: "string \<Rightarrow> string \<Rightarrow> string option \<Rightarrow> string" where
  "determine_optimal_parent_directory directory_name data_home_root source_path =
     (if is_news_transcript_source source_path
      then os_path_join data_home_root [''filetree/roots/documents/Text Documents'']
      else
        (case content_type_match directory_name of
           None \<Rightarrow> os_path_join data_home_root [''filetree/roots/documents'']
         | Some content_type \<Rightarrow>
             (case map_of data_home_mapping content_type of
                None \<Rightarrow> os_path_join data_home_root [''filetree/roots/documents'']
              | Some (primary_path, context_mappings) \<Rightarrow>
                  (case find (\<lambda>(context_abbrev, context_path).
                               py_in context_abbrev (py_lower directory_name)) context_mappings of
                     Some (context_abbrev, context_path) \<Rightarrow>
                       os_path_join data_home_root [''filetree/roots'', context_path]
                   | None \<Rightarrow> os_path_join data_home_root [''filetree/roots'', primary_path]))))"

text \<open>
  \<open>generate_directory_name_and_path_with_feedback\<close> returns \<open>(None, None)\<close> when the
  name is \<open>None\<close> or empty; \<open>generate_directory_name_and_path\<close> calls it with
  \<open>feedback=None\<close>.
\<close>

definition generate_directory_name_and_path_with_feedback ::
    "'p client \<Rightarrow> 'p \<Rightarrow> string \<Rightarrow> string option \<Rightarrow> string option \<Rightarrow> date
       \<Rightarrow> string option \<times> string option" where
  "generate_directory_name_and_path_with_feedback client analysis_data data_home_root source_path
       feedback now =
     (case generate_directory_name_with_feedback client analysis_data feedback now of
        None \<Rightarrow> (None, None)
      | Some directory_name \<Rightarrow>
          if directory_name = [] then (None, None)
          else (Some directory_name,
                Some (determine_optimal_parent_directory directory_name data_home_root source_path)))"

definition generate_directory_name_and_path ::
    "'p client \<Rightarrow> 'p \<Rightarrow> string \<Rightarrow> string option \<Rightarrow> date \<Rightarrow> string option \<times> string option" where
  "generate_directory_name_and_path client analysis_data data_home_root source_path now =
     generate_directory_name_and_path_with_feedback client analysis_data data_home_root source_path
       None now"


section \<open>main_orchastrator.py: the attempt log\<close>

text \<open>
  \<open>categorize_feedback\<close>: the keyword buckets in the order of the source; a bucket's
  tag is added when any of its words occurs in the lowercased feedback.
\<close>

definition feedback_buckets :: "(string list \<times> string) list" where
  "feedback_buckets =
    [([''generic'', ''specific'', ''vague'', ''unclear''], ''specificity''),
     ([''long'', ''short'', ''length'', ''brief'', ''verbose''], ''length''),
     ([''location'', ''directory'', ''path'', ''folder'', ''place''], ''location''),
     ([''topic'', ''subject'', ''focus'', ''about'', ''theme''], ''content_focus''),
     ([''abbreviation'', ''abbrev'', ''short'', ''expand''], ''abbreviations''),
     ([''missing'', ''include'', ''add'', ''mention''], ''missing_info''),
     ([''context'', ''background'', ''situation''], ''context'')]"

definition categorize_feedback :: "string \<Rightarrow> string" where
  "categorize_feedback feedback =
     (if feedback = [] then []
      else
        (let feedback_lower = py_lower feedback;
             categories = map snd (filter (\<lambda>(words, tag). list_ex (\<lambda>word. py_in word feedback_lower) words)
                                     feedback_buckets)
         in if categories \<noteq> [] then py_join ''|'' categories else ''other''))"

record analysis_summary =
  total_files_analyzed :: nat
  had_audio_files :: bool

text \<open>
  One row of \<open>naming_ab_testing_log.csv\<close>.  The \<open>timestamp\<close> column is the clock's
  reading at the append and is not part of the model.
\<close>

record log_entry =
  le_session_id :: string
  le_attempt_number :: nat
  le_source_path :: string
  le_generated_name :: string
  le_generated_name_length :: nat
  le_optimal_parent_path :: string
  le_user_action :: string
  le_user_feedback :: string
  le_final_destination :: string
  le_files_analyzed :: nat
  le_has_audio_files :: string
  le_source_is_news_transcript :: string
  le_content_type_prefix :: string
  le_feedback_length :: nat
  le_feedback_categories :: string

definition make_log_entry ::
    "string \<Rightarrow> nat \<Rightarrow> string \<Rightarrow> string \<Rightarrow> string \<Rightarrow> string \<Rightarrow> string \<Rightarrow> string
       \<Rightarrow> analysis_summary \<Rightarrow> log_entry" where
  "make_log_entry session attempt source_path generated_name optimal_parent user_action feedback
       final_destination summary =
     \<lparr>le_session_id = session,
      le_attempt_number = attempt,
      le_source_path = source_path,
      le_generated_name = generated_name,
      le_generated_name_length = length generated_name,
      le_optimal_parent_path = optimal_parent,
      le_user_action = user_action,
      le_user_feedback = feedback,
      le_final_destination = final_destination,
      le_files_analyzed = total_files_analyzed summary,
      le_has_audio_files = (if had_audio_files summary then ''yes'' else ''no''),
      le_source_is_news_transcript = (if py_in ''News/transcripts'' source_path then ''yes'' else ''no''),
      le_content_type_prefix = (if length generated_name \<ge> 4 then take 4 generated_name else []),
      le_feedback_length = length feedback,
      le_feedback_categories = (if feedback \<noteq> [] then categorize_feedback feedback else [])\<rparr>"

text \<open>
  Every way the modelled part of \<open>main\<close> can end with an uncaught exception:
  \<open>log_naming_attempt\<close> opens and writes the log file with no \<open>try\<close> around it, and so do
  the retry analysis and the dump of its JSON file.
\<close>

datatype error = LogWriteError | AnalysisError

text \<open>
  \<open>log_naming_attempt\<close>: the row is appended to the file, or \<open>open\<close>/\<open>writerow\<close> raises.
  Whether the append of a row succeeds is an input (\<open>writable\<close>).  The model's log holds
  the rows appended during the run.
\<close>

definition log_naming_attempt ::
    "(log_entry \<Rightarrow> bool) \<Rightarrow> log_entry list \<Rightarrow> log_entry \<Rightarrow> error + log_entry list" where
  "log_naming_attempt writable log_file entry =
     (if writable entry then Inr (log_file @ [entry]) else Inl LogWriteError)"

section \<open>main_orchastrator.py: the user\<close>

text \<open>
  \<open>prompt_user_naming_satisfaction\<close> asks again until the answer is \<open>1\<close> or \<open>2\<close>; the
  model takes that answer as its input.  \<open>collect_user_feedback\<close> strips the line typed
  by the user and substitutes a default when nothing is left.
\<close>

datatype menu_answer = One | Two

definition prompt_user_naming_satisfaction :: "menu_answer \<Rightarrow> string" where
  "prompt_user_naming_satisfaction response = (case response of One \<Rightarrow> ''accept'' | Two \<Rightarrow> ''retry'')"

definition collect_user_feedback :: "string \<Rightarrow> string" where
  "collect_user_feedback typed =
     (let feedback = py_strip typed in
      if feedback = [] then ''Please make the name more specific and descriptive'' else feedback)"

section \<open>main_orchastrator.py: the retry loop for directory naming\<close>

text \<open>
  What surrounds the loop.  The inputs indexed by a number are read during the iteration
  with that \<open>retry_count\<close>: the external call, the clock, the retry analysis of the
  target directory (\<open>None\<close> when it raises), the dump of its JSON file, and the user.
\<close>

record 'p env =
  env_data_home_root :: "string option"
  env_directory_path :: string
  env_session_id :: string
  env_analysis_summary :: analysis_summary
  env_analysis_data :: 'p
  env_api_key_set :: bool
  env_messages_create :: "nat \<Rightarrow> 'p prompt \<Rightarrow> api_outcome"
  env_now :: "nat \<Rightarrow> date"
  env_create_retry_analysis_payload :: "nat \<Rightarrow> 'p option"
  env_save_retry_analysis :: "nat \<Rightarrow> bool"
  env_satisfaction :: "nat \<Rightarrow> menu_answer"
  env_feedback_typed :: "nat \<Rightarrow> string"
  env_log_writable :: "log_entry \<Rightarrow> bool"

text \<open>
  \<open>gen_call\<close> records a call of the name generator: the attempt number, the feedback
  history at that moment and the \<open>feedback\<close> argument.  The list \<open>calls\<close> of the state is
  an observation of the run; the program does not read it.
\<close>

record gen_call =
  call_attempt :: nat
  call_history :: "string list"
  call_feedback :: "string option"

record 'p loop_state =
  retry_count :: nat
  feedback_history :: "string list"
  current_analysis_data :: 'p
  new_directory_name :: "string option"
  optimal_parent_path :: "string option"
  log :: "log_entry list"
  calls :: "gen_call list"

definition max_retries :: nat where
  "max_retries = 3"

definition initial_state :: "'p env \<Rightarrow> 'p loop_state" where
  "initial_state env =
     \<lparr>retry_count = 0, feedback_history = [], current_analysis_data = env_analysis_data env,
      new_directory_name = None, optimal_parent_path = None, log = [], calls = []\<rparr>"

text \<open>Python truthiness of an optional string: neither \<open>None\<close> nor empty.\<close>

definition truthy :: "string option \<Rightarrow> bool" where
  "truthy v = (case v of None \<Rightarrow> False | Some x \<Rightarrow> x \<noteq> [])"

definition or_empty :: "string option \<Rightarrow> string" where
  "or_empty v = (case v of None \<Rightarrow> [] | Some x \<Rightarrow> x)"

definition the_client :: "'p env \<Rightarrow> nat \<Rightarrow> 'p client" where
  "the_client env n = (if env_api_key_set env then Some (env_messages_create env n) else None)"

text \<open>
  The first half of the loop body (lines 158 to 192): the candidate name and, with
  DATA-HOME integration, its parent directory.
\<close>

definition generate_candidate :: "'p env \<Rightarrow> 'p loop_state \<Rightarrow> error + 'p loop_state" where
  "generate_candidate env s =
     (let n = retry_count s; client = the_client env n; now = env_now env n in
      if truthy (env_data_home_root env) then
        (if n = 0 then
           (let (name, parent) = generate_directory_name_and_path client (current_analysis_data s)
                                   (or_empty (env_data_home_root env)) (Some (env_directory_path env)) now
            in Inr (s\<lparr>new_directory_name := name, optimal_parent_path := parent,
                      calls := calls s @ [\<lparr>call_attempt = n + 1, call_history = feedback_history s,
                                            call_feedback = None\<rparr>]\<rparr>))
         else
           (case env_create_retry_analysis_payload env n of
              None \<Rightarrow> Inl AnalysisError
            | Some analysis \<Rightarrow>
                if \<not> env_save_retry_analysis env n then Inl AnalysisError
                else
                  (let combined_feedback = py_join '' | '' (feedback_history s);
                       (name, parent) = generate_directory_name_and_path_with_feedback client analysis
                                          (or_empty (env_data_home_root env))
                                          (Some (env_directory_path env)) (Some combined_feedback) now
                   in Inr (s\<lparr>current_analysis_data := analysis,
                             new_directory_name := name, optimal_parent_path := parent,
                             calls := calls s @ [\<lparr>call_attempt = n + 1,
                                                   call_history = feedback_history s,
                                                   call_feedback = Some combined_feedback\<rparr>]\<rparr>))))
      else
        (if n = 0 then
           Inr (s\<lparr>new_directory_name := generate_directory_name client (current_analysis_data s) now,
                  optimal_parent_path := None,
                  calls := calls s @ [\<lparr>call_attempt = n + 1, call_history = feedback_history s,
                                        call_feedback = None\<rparr>]\<rparr>)
         else
           (case env_create_retry_analysis_payload env n of
              None \<Rightarrow> Inl AnalysisError
            | Some analysis \<Rightarrow>
                (let combined_feedback = py_join '' | '' (feedback_history s)
                 in Inr (s\<lparr>current_analysis_data := analysis,
                           new_directory_name :=
                             generate_directory_name_with_feedback client analysis
                               (Some combined_feedback) now,
                           optimal_parent_path := None,
                           calls := calls s @ [\<lparr>call_attempt = n + 1,
                                                 call_history = feedback_history s,
                                                 call_feedback = Some combined_feedback\<rparr>]\<rparr>)))))"

text \<open>The call \<open>log_naming_attempt(...)\<close> as the loop makes it, on the state's log.\<close>

definition log_attempt ::
    "'p env \<Rightarrow> 'p loop_state \<Rightarrow> string \<Rightarrow> string \<Rightarrow> string \<Rightarrow> error + 'p loop_state" where
  "log_attempt env s generated_name user_action feedback =
     (case log_naming_attempt (env_log_writable env) (log s)
             (make_log_entry (env_session_id env) (retry_count s + 1) (env_directory_path env)
                generated_name (or_empty (optimal_parent_path s)) user_action feedback []
                (env_analysis_summary env)) of
        Inl e \<Rightarrow> Inl e
      | Inr log' \<Rightarrow> Inr (s\<lparr>log := log'\<rparr>))"

datatype flow = Continue | Break

text \<open>
  The second half of the loop body (lines 194 to 279): the decision on the candidate.
  In the retry branch the feedback is appended to the history before the row is logged,
  and \<open>retry_count\<close> is incremented after it.
\<close>

definition decide :: "'p env \<Rightarrow> 'p loop_state \<Rightarrow> error + ('p loop_state \<times> flow)" where
  "decide env s =
     (if \<not> truthy (new_directory_name s) then
        (case log_attempt env s [] ''generation_failed'' [] of
           Inl e \<Rightarrow> Inl e | Inr s' \<Rightarrow> Inr (s', Break))
      else
        (let name = or_empty (new_directory_name s);
             user_choice = prompt_user_naming_satisfaction (env_satisfaction env (retry_count s))
         in
         if user_choice = ''accept'' then
           (case log_attempt env s name ''accept'' [] of
              Inl e \<Rightarrow> Inl e | Inr s' \<Rightarrow> Inr (s', Break))
         else if user_choice = ''retry'' \<and> retry_count s < max_retries then
           (let feedback = collect_user_feedback (env_feedback_typed env (retry_count s));
                s1 = s\<lparr>feedback_history := feedback_history s @ [feedback]\<rparr>
            in case log_attempt env s1 name ''retry'' feedback of
                 Inl e \<Rightarrow> Inl e
               | Inr s2 \<Rightarrow> Inr (s2\<lparr>retry_count := retry_count s2 + 1\<rparr>, Continue))
         else if retry_count s \<ge> max_retries then
           (case log_attempt env s name ''max_retries_reached'' [] of
              Inl e \<Rightarrow> Inl e | Inr s' \<Rightarrow> Inr (s', Break))
         else
           (case log_attempt env s name ''cancel'' [] of
              Inl e \<Rightarrow> Inl e | Inr s' \<Rightarrow> Inr (s', Break))))"

definition loop_body :: "'p env \<Rightarrow> 'p loop_state \<Rightarrow> error + ('p loop_state \<times> flow)" where
  "loop_body env s = (case generate_candidate env s of Inl e \<Rightarrow> Inl e | Inr s' \<Rightarrow> decide env s')"

lemma loop_body_Continue:
  assumes "loop_body env s = Inr (s', Continue)"
  shows "retry_count s < max_retries" and "retry_count s' = retry_count s + 1"
proof -
  obtain s1 where g: "generate_candidate env s = Inr s1" and d: "decide env s1 = Inr (s', Continue)"
    using assms by (auto simp: loop_body_def split: sum.splits)
  have rc: "retry_count s1 = retry_count s"
    using g by (auto simp: generate_candidate_def Let_def split: if_splits option.splits prod.splits)
  have "retry_count s1 < max_retries \<and> retry_count s' = retry_count s1 + 1"
    using d by (auto simp: decide_def log_attempt_def log_naming_attempt_def Let_def
        split: if_splits sum.splits)
  with rc show "retry_count s < max_retries" and "retry_count s' = retry_count s + 1" by auto
qed

text \<open>\<open>while retry_count <= max_retries:\<close> around the body; \<open>break\<close> leaves it.\<close>

function negotiation_loop :: "'p env \<Rightarrow> 'p loop_state \<Rightarrow> error + 'p loop_state" where
  "negotiation_loop env s =
     (if retry_count s \<le> max_retries then
        (case loop_body env s of
           Inl e \<Rightarrow> Inl e
         | Inr (s', Break) \<Rightarrow> Inr s'
         | Inr (s', Continue) \<Rightarrow> negotiation_loop env s')
      else Inr s)"
  by pat_completeness auto
termination
  apply (relation "measure (\<lambda>(env, s). Suc max_retries - retry_count s)")
   apply simp
  apply clarsimp
  apply (frule loop_body_Continue(1))
  apply (drule loop_body_Continue(2))
  apply simp
  done

declare negotiation_loop.simps [simp del]


section \<open>main_orchastrator.py: conflict resolution and placement\<close>

text \<open>
  A path is a parent directory and a name in it, \<open>Path(parent) / name\<close>; \<open>Path('.')\<close> is
  the parent \<open>.\<close> with the empty name.  \<open>str(path)\<close> is pathlib's normal form of the two
  joined.
\<close>

type_synonym path = "string \<times> string"

definition path_str :: "path \<Rightarrow> string" where
  "path_str p = pathlib_str (os_path_join (fst p) [snd p])"

text \<open>
  The conflict loop (lines 288 to 294 and 391 to 397):
  \<open>while temp.exists(): temp = parent / f"{original_new_name}{counter}"; counter += 1\<close>.
  \<open>exists_in_parent n\<close> is \<open>(parent / n).exists()\<close>.  The source has no bound on the
  loop, so the model is a partial function: \<open>None\<close> is a loop that never ends.
\<close>

partial_function (option) conflict_loop ::
    "(string \<Rightarrow> bool) \<Rightarrow> string \<Rightarrow> string \<Rightarrow> nat \<Rightarrow> (string \<times> nat) option" where
  "conflict_loop exists_in_parent original_new_name temp_name counter =
     (if exists_in_parent temp_name
      then conflict_loop exists_in_parent original_new_name
             (original_new_name @ str_nat counter) (counter + 1)
      else Some (temp_name, counter))"

declare conflict_loop.simps [code]

text \<open>
  The loop from \<open>counter = 1\<close>, then \<open>if counter > 1: new_directory_name = temp.name\<close>.
\<close>

definition resolve_conflict :: "(string \<Rightarrow> bool) \<Rightarrow> string \<Rightarrow> string option" where
  "resolve_conflict exists_in_parent new_name =
     (case conflict_loop exists_in_parent new_name new_name 1 of
        None \<Rightarrow> None
      | Some (temp_name, counter) \<Rightarrow> Some (if counter > 1 then temp_name else new_name))"

text \<open>
  The file system and the user during placement; \<open>pe_error_text\<close> is \<open>str(e)\<close> of the
  exception caught.  \<open>os.makedirs\<close> and \<open>Path.rename\<close> either succeed or raise with the
  directory as it was.  \<open>shutil.move\<close> is not atomic: it first tries \<open>os.rename\<close> and,
  when that raises, copies the tree to the destination and then removes the source.  It
  can therefore raise before anything has changed, or after files have been copied out and
  removed from the directory (as for the target \<open>.\<close>, which can be neither renamed nor
  removed); in both cases the directory itself is still at its path.
\<close>

datatype caught = MakedirsRaised | MoveRaised | RenameRaised | LogRaised

datatype move_result = Moved | RaisedUnchanged | RaisedAfterCopying

record place_env =
  pe_target_directory :: path
  pe_exists :: "path \<Rightarrow> bool"
  pe_consent :: bool
  pe_makedirs_ok :: bool
  pe_move :: move_result
  pe_rename_ok :: bool
  pe_error_text :: "caught \<Rightarrow> string"

text \<open>
  The result of a placement: the log, the path at which the directory is, whether it
  still holds all it held (no failed move has copied files out of it), the program's
  \<open>final_location\<close>, and the name used.
\<close>

record placed =
  pl_log :: "log_entry list"
  pl_directory_at :: path
  pl_content_intact :: bool
  pl_final_location :: path
  pl_name :: string

datatype outcome = Declined | Placed placed | NoName

definition log_row ::
    "'p env \<Rightarrow> 'p loop_state \<Rightarrow> log_entry list \<Rightarrow> string \<Rightarrow> string \<Rightarrow> string \<Rightarrow> string \<Rightarrow> string
       \<Rightarrow> error + log_entry list" where
  "log_row env s lg generated_name optimal_parent user_action feedback final_destination =
     log_naming_attempt (env_log_writable env) lg
       (make_log_entry (env_session_id env) (retry_count s + 1) (env_directory_path env)
          generated_name optimal_parent user_action feedback final_destination
          (env_analysis_summary env))"

text \<open>
  The inner \<open>try\<close> of the fallback (lines 352 to 385): the local rename and its row are
  inside the \<open>try\<close>, so a failure of either is caught and logged as \<open>total_failure\<close>.
  \<open>directory_at\<close> is where the directory is when the rename is tried, and \<open>intact\<close>
  whether it still holds all it held: the rename can only succeed if the directory is
  still at \<open>target_directory\<close>, and it changes the path, not the content.
\<close>

definition local_rename_fallback ::
    "'p env \<Rightarrow> place_env \<Rightarrow> 'p loop_state \<Rightarrow> log_entry list \<Rightarrow> path \<Rightarrow> bool \<Rightarrow> string
       \<Rightarrow> error + placed" where
  "local_rename_fallback env pe s lg directory_at intact name =
     (let target_directory = pe_target_directory pe;
          new_path = (fst target_directory, name);
          total_failure = (\<lambda>at e2.
            case log_row env s lg name ''local_fallback'' ''total_failure''
                   (''Local rename error: '' @ pe_error_text pe e2) (path_str target_directory) of
              Inl e \<Rightarrow> Inl e
            | Inr lg' \<Rightarrow> Inr \<lparr>pl_log = lg', pl_directory_at = at, pl_content_intact = intact,
                               pl_final_location = target_directory, pl_name = name\<rparr>)
      in
      if directory_at = target_directory \<and> pe_rename_ok pe then
        (case log_row env s lg name ''local_fallback'' ''local_rename_success'' [] (path_str new_path) of
           Inl e \<Rightarrow> total_failure new_path LogRaised
         | Inr lg' \<Rightarrow> Inr \<lparr>pl_log = lg', pl_directory_at = new_path, pl_content_intact = intact,
                            pl_final_location = new_path, pl_name = name\<rparr>)
      else total_failure directory_at RenameRaised)"

text \<open>
  The outer \<open>try\<close> (lines 313 to 349): \<open>os.makedirs\<close>, \<open>shutil.move\<close> and the row
  \<open>moved_successfully\<close>; whatever raises there is caught, logged as \<open>move_failed\<close>, and
  followed by the local rename.  A move that raised may have copied files out of the
  directory already; nothing in the handler puts them back.
\<close>

definition move_to_optimal_location ::
    "'p env \<Rightarrow> place_env \<Rightarrow> 'p loop_state \<Rightarrow> string \<Rightarrow> string \<Rightarrow> error + placed" where
  "move_to_optimal_location env pe s optimal_parent name =
     (let target_directory = pe_target_directory pe;
          final_path = (optimal_parent, name);
          move_failed = (\<lambda>at intact e0.
            case log_row env s (log s) name optimal_parent ''move_failed''
                   (''Move error: '' @ pe_error_text pe e0) [] of
              Inl e \<Rightarrow> Inl e
            | Inr lg' \<Rightarrow> local_rename_fallback env pe s lg' at intact name)
      in
      if \<not> pe_makedirs_ok pe then move_failed target_directory True MakedirsRaised
      else
        (case pe_move pe of
           RaisedUnchanged \<Rightarrow> move_failed target_directory True MoveRaised
         | RaisedAfterCopying \<Rightarrow> move_failed target_directory False MoveRaised
         | Moved \<Rightarrow>
             (case log_row env s (log s) name optimal_parent ''moved_successfully'' []
                     (path_str final_path) of
                Inl e \<Rightarrow> move_failed final_path True LogRaised
              | Inr lg' \<Rightarrow> Inr \<lparr>pl_log = lg', pl_directory_at = final_path,
                                 pl_content_intact = True,
                                 pl_final_location = final_path, pl_name = name\<rparr>)))"

text \<open>The rename without DATA-HOME integration (lines 416 to 448).\<close>

definition rename_locally ::
    "'p env \<Rightarrow> place_env \<Rightarrow> 'p loop_state \<Rightarrow> string \<Rightarrow> error + placed" where
  "rename_locally env pe s name =
     (let target_directory = pe_target_directory pe;
          new_path = (fst target_directory, name);
          rename_failed = (\<lambda>at e0.
            case log_row env s (log s) name ''no_data_home'' ''rename_failed''
                   (''Rename error: '' @ pe_error_text pe e0) (path_str target_directory) of
              Inl e \<Rightarrow> Inl e
            | Inr lg' \<Rightarrow> Inr \<lparr>pl_log = lg', pl_directory_at = at, pl_content_intact = True,
                               pl_final_location = target_directory, pl_name = name\<rparr>)
      in
      if pe_rename_ok pe then
        (case log_row env s (log s) name ''no_data_home'' ''local_rename_success'' [] (path_str new_path) of
           Inl e \<Rightarrow> rename_failed new_path LogRaised
         | Inr lg' \<Rightarrow> Inr \<lparr>pl_log = lg', pl_directory_at = new_path, pl_content_intact = True,
                            pl_final_location = new_path, pl_name = name\<rparr>)
      else rename_failed target_directory RenameRaised)"

text \<open>
  Lines 282 to 451: with a name, the conflict loop against the destination parent, the
  user's consent (\<open>sys.exit(0)\<close> without it), then the move or the rename.
\<close>

definition place :: "'p env \<Rightarrow> place_env \<Rightarrow> 'p loop_state \<Rightarrow> (error + outcome) option" where
  "place env pe s =
     (if truthy (new_directory_name s) then
        (let name = or_empty (new_directory_name s) in
         if truthy (env_data_home_root env) \<and> truthy (optimal_parent_path s) then
           (let optimal_parent = or_empty (optimal_parent_path s) in
            case resolve_conflict (\<lambda>n. pe_exists pe (optimal_parent, n)) name of
              None \<Rightarrow> None
            | Some final_name \<Rightarrow>
                if \<not> pe_consent pe then Some (Inr Declined)
                else Some (map_sum id Placed
                             (move_to_optimal_location env pe s optimal_parent final_name)))
         else
           (case resolve_conflict (\<lambda>n. pe_exists pe (fst (pe_target_directory pe), n)) name of
              None \<Rightarrow> None
            | Some final_name \<Rightarrow>
                if \<not> pe_consent pe then Some (Inr Declined)
                else Some (map_sum id Placed (rename_locally env pe s final_name))))
      else Some (Inr NoName))"


section \<open>directory_analyzer.py\<close>

text \<open>
  A \<open>Path\<close> is the list of its parts below the root; \<open>p / name\<close> appends a part.
  The file system is read through the operations the analyzer calls on paths.  A
  directory listing gives the names in the order of the operating system, or raises;
  \<open>is_file()\<close> and \<open>is_dir()\<close> tell a regular file, a directory, or neither, or raise
  \<open>PermissionError\<close>; \<open>stat()\<close> gives the size or raises; reading a file gives its text
  (decoded with \<open>errors='ignore'\<close>) or raises; \<open>rglob('*')\<close> gives the paths below a
  directory in the order it yields them.
\<close>

type_synonym fpath = "string list"

datatype listing = Entries "string list" | ListingDenied | ListingFailed

datatype kind = RegularFile | Directory | Neither | KindDenied

record fs =
  fs_iterdir :: "fpath \<Rightarrow> listing"
  fs_kind :: "fpath \<Rightarrow> kind"
  fs_size :: "fpath \<Rightarrow> nat option"
  fs_read :: "fpath \<Rightarrow> string option"
  fs_rglob :: "fpath \<Rightarrow> fpath list"

definition str_path :: "fpath \<Rightarrow> string" where
  "str_path p = ''/'' @ py_join ''/'' p"

definition is_under :: "fpath \<Rightarrow> fpath \<Rightarrow> bool" where
  "is_under directory p \<longleftrightarrow> take (length directory) p = directory"

text \<open>The settings of \<open>DirectoryAnalyzer.__init__\<close>.\<close>

definition readable_extensions :: "string list" where
  "readable_extensions =
     [''.txt'', ''.md'', ''.py'', ''.js'', ''.html'', ''.css'', ''.json'', ''.xml'',
      ''.yaml'', ''.yml'', ''.cfg'', ''.ini'', ''.log'', ''.csv'', ''.tsv'']"

definition max_snippet_length :: nat where "max_snippet_length = 500"
definition max_files_to_analyze :: nat where "max_files_to_analyze = 25"
definition lines_to_extract :: nat where "lines_to_extract = 10"

text \<open>
  \<open>format_file_size\<close>.  The source divides floats by \<open>1024.0\<close> and formats with
  \<open>.1f\<close>; for sizes below \<open>2\<^sup>5\<^sup>3\<close> every quotient is exact, and the text is the exact
  value \<open>n / d\<close> rounded to one decimal, ties to even.
\<close>

definition round_half_even :: "nat \<Rightarrow> nat \<Rightarrow> nat" where
  "round_half_even n d =
     (let q = n div d; r = n mod d in if 2 * r > d \<or> (2 * r = d \<and> odd q) then q + 1 else q)"

definition format_1f :: "nat \<Rightarrow> nat \<Rightarrow> string" where
  "format_1f n d =
     (let tenths = round_half_even (10 * n) d in str_nat (tenths div 10) @ ''.'' @ str_nat (tenths mod 10))"

fun format_units :: "nat \<Rightarrow> nat \<Rightarrow> string list \<Rightarrow> string" where
  "format_units n d [] = format_1f n d @ ''TB''"
| "format_units n d (unit # units) =
     (if n < 1024 * d then format_1f n d @ unit else format_units n (d * 1024) units)"

definition format_file_size :: "nat \<Rightarrow> string" where
  "format_file_size size_bytes = format_units size_bytes 1 [''B'', ''KB'', ''MB'', ''GB'']"

text \<open>
  \<open>Path.suffix\<close>: the part of the name from its last dot, when that dot is neither the
  first nor the last character.
\<close>

definition last_dot :: "string \<Rightarrow> nat option" where
  "last_dot name =
     (case filter (\<lambda>i. name ! i = CHR ''.'') (rev [0..<length name]) of
        [] \<Rightarrow> None | i # _ \<Rightarrow> Some i)"

definition suffix_of :: "string \<Rightarrow> string" where
  "suffix_of name =
     (case last_dot name of
        None \<Rightarrow> []
      | Some i \<Rightarrow> if 0 < i \<and> i < length name - 1 then drop i name else [])"

text \<open>
  A Python \<open>dict\<close> keeps its keys in insertion order; assigning to a key it has replaces
  the value in place.
\<close>

fun dict_set :: "('k \<times> 'v) list \<Rightarrow> 'k \<Rightarrow> 'v \<Rightarrow> ('k \<times> 'v) list" where
  "dict_set [] k v = [(k, v)]"
| "dict_set ((k', v') # kvs) k v = (if k' = k then (k, v) # kvs else (k', v') # dict_set kvs k v)"

datatype tree = Leaf string | Node "(string \<times> tree) list"

text \<open>The key of \<open>sorted\<close> in \<open>build_tree\<close>: \<open>(x.is_file(), x.name.lower())\<close>.\<close>

definition sort_rank :: "fs \<Rightarrow> fpath \<Rightarrow> string \<Rightarrow> bool \<times> string" where
  "sort_rank w path name = (fs_kind w (path @ [name]) = RegularFile, py_lower name)"

definition file_description :: "fs \<Rightarrow> fpath \<Rightarrow> string \<Rightarrow> string" where
  "file_description w path name =
     (case fs_size w (path @ [name]) of
        None \<Rightarrow> ''unknown_size''
      | Some size_bytes \<Rightarrow>
          format_file_size size_bytes @ '' | ''
            @ (if suffix_of name = [] then ''no_ext'' else suffix_of name))"

function build_tree :: "fs \<Rightarrow> nat \<Rightarrow> fpath \<Rightarrow> nat \<Rightarrow> error + (string \<times> tree) list" where
  "build_tree w max_depth path current_depth =
     (if current_depth > max_depth then Inr [(''...'', Leaf ''max_depth_reached'')]
      else
        (case fs_iterdir w path of
           ListingFailed \<Rightarrow> Inl AnalysisError
         | ListingDenied \<Rightarrow> Inr [(''[ACCESS_DENIED]'', Leaf ''permission_error'')]
         | Entries names \<Rightarrow>
             if list_ex (\<lambda>name. fs_kind w (path @ [name]) = KindDenied) names
             then Inr [(''[ACCESS_DENIED]'', Leaf ''permission_error'')]
             else
               foldl (\<lambda>acc name.
                        case acc of
                          Inl e \<Rightarrow> Inl e
                        | Inr tree \<Rightarrow>
                            if fs_kind w (path @ [name]) = Directory then
                              (case build_tree w max_depth (path @ [name]) (current_depth + 1) of
                                 Inl e \<Rightarrow> Inl e
                               | Inr sub \<Rightarrow> Inr (dict_set tree (name @ ''/'') (Node sub)))
                            else Inr (dict_set tree name (Leaf (file_description w path name))))
                     (Inr []) (sort_key (sort_rank w path) names)))"
  by pat_completeness auto
termination
  by (relation "measure (\<lambda>(w, max_depth, path, current_depth). Suc max_depth - current_depth)")
    auto

declare build_tree.simps [simp del]

definition create_file_tree :: "fs \<Rightarrow> fpath \<Rightarrow> error + (string \<times> tree) list" where
  "create_file_tree w directory = build_tree w 3 directory 0"

text \<open>\<open>content.split('\n')\<close>, and the snippet of a file with its position tag.\<close>

fun py_split_newline :: "string \<Rightarrow> string list" where
  "py_split_newline [] = [[]]"
| "py_split_newline (c # cs) =
     (if c = newline then [] # py_split_newline cs
      else (case py_split_newline cs of
              [] \<Rightarrow> [[c]]
            | l # ls \<Rightarrow> (c # l) # ls))"

definition snippet_of :: "bool \<Rightarrow> string \<Rightarrow> string" where
  "snippet_of extract_from_end content =
     (if extract_from_end then
        (let lines = py_split_newline content;
             relevant_lines = (if length lines > lines_to_extract
                               then drop (length lines - lines_to_extract) lines else lines);
             joined = py_join [newline] relevant_lines
         in ''[end] '' @ drop (length joined - max_snippet_length) joined)
      else
        (let lines = take lines_to_extract (py_split_newline content);
             joined = py_join [newline] lines
         in ''[beginning] '' @ take max_snippet_length joined))"

definition name_of :: "fpath \<Rightarrow> string" where
  "name_of p = (if p = [] then [] else last p)"

definition str_relative :: "fpath \<Rightarrow> string" where
  "str_relative parts = (if parts = [] then ''.'' else py_join ''/'' parts)"

text \<open>
  The loop of \<open>extract_text_snippets\<close> over the paths of \<open>rglob\<close>.  \<open>is_file()\<close> is
  called outside the \<open>try\<close>, so an exception from it ends the function; what raises
  inside the \<open>try\<close> (reading the file, \<open>relative_to\<close>) skips the file.
\<close>

fun snippets_loop ::
    "fs \<Rightarrow> fpath \<Rightarrow> bool \<Rightarrow> fpath list \<Rightarrow> (string \<times> string) list \<Rightarrow> nat
       \<Rightarrow> error + (string \<times> string) list" where
  "snippets_loop w directory extract_from_end [] snippets file_count = Inr snippets"
| "snippets_loop w directory extract_from_end (file_path # rest) snippets file_count =
     (if file_count \<ge> max_files_to_analyze then Inr snippets
      else
        (case fs_kind w file_path of
           KindDenied \<Rightarrow> Inl AnalysisError
         | RegularFile \<Rightarrow>
             if py_lower (suffix_of (name_of file_path)) \<notin> set readable_extensions
             then snippets_loop w directory extract_from_end rest snippets file_count
             else
               (case fs_read w file_path of
                  None \<Rightarrow> snippets_loop w directory extract_from_end rest snippets file_count
                | Some content \<Rightarrow>
                    if \<not> is_under directory file_path
                    then snippets_loop w directory extract_from_end rest snippets file_count
                    else snippets_loop w directory extract_from_end rest
                           (dict_set snippets (str_relative (drop (length directory) file_path))
                              (snippet_of extract_from_end content))
                           (file_count + 1))
         | _ \<Rightarrow> snippets_loop w directory extract_from_end rest snippets file_count))"

definition extract_text_snippets :: "fs \<Rightarrow> fpath \<Rightarrow> bool \<Rightarrow> error + (string \<times> string) list" where
  "extract_text_snippets w directory extract_from_end =
     snippets_loop w directory extract_from_end (fs_rglob w directory) [] 0"

record analysis_metadata =
  md_total_files_analyzed :: nat
  md_max_depth :: nat
  md_snippet_max_length :: nat
  md_lines_extracted :: nat
  md_extraction_type :: string

record analysis_payload =
  ap_directory_path :: string
  ap_file_tree :: "(string \<times> tree) list"
  ap_text_snippets :: "(string \<times> string) list"
  ap_analysis_metadata :: analysis_metadata

definition create_analysis_payload :: "fs \<Rightarrow> fpath \<Rightarrow> bool \<Rightarrow> error + analysis_payload" where
  "create_analysis_payload w directory extract_from_end =
     (case create_file_tree w directory of
        Inl e \<Rightarrow> Inl e
      | Inr file_tree \<Rightarrow>
          (case extract_text_snippets w directory extract_from_end of
             Inl e \<Rightarrow> Inl e
           | Inr text_snippets \<Rightarrow>
               Inr \<lparr>ap_directory_path = str_path directory,
                    ap_file_tree = file_tree,
                    ap_text_snippets = text_snippets,
                    ap_analysis_metadata =
                      \<lparr>md_total_files_analyzed = length text_snippets,
                       md_max_depth = 3,
                       md_snippet_max_length = max_snippet_length,
                       md_lines_extracted = lines_to_extract,
                       md_extraction_type = (if extract_from_end then ''end_of_files''
                                             else ''beginning_of_files'')\<rparr>\<rparr>))"

definition create_retry_analysis_payload :: "fs \<Rightarrow> fpath \<Rightarrow> error + analysis_payload" where
  "create_retry_analysis_payload w directory = create_analysis_payload w directory True"



section \<open>The rules as the specification words them\<close>

text \<open>
  The name rule of the specification: at most 75 characters, the first a lowercase letter,
  the remainder alphanumeric only.
\<close>

definition name_rule_as_specified :: "string \<Rightarrow> bool" where
  "name_rule_as_specified name \<longleftrightarrow>
     length name \<le> 75 \<and>
     (case name of [] \<Rightarrow> False | c # cs \<Rightarrow> is_lower_az c \<and> list_all is_alnum_class cs)"

text \<open>
  A naming failure: no generation client, an exception raised by the external call, or a
  reply that fails validation once stripped.
\<close>

definition naming_failure :: "'p client \<Rightarrow> 'p prompt \<Rightarrow> bool" where
  "naming_failure client prompt =
     (case client of
        None \<Rightarrow> True
      | Some messages_create \<Rightarrow>
          (case messages_create prompt of
             Raised \<Rightarrow> True
           | Reply text \<Rightarrow> \<not> validate_directory_name (py_strip text)))"

section \<open>The loop as a transition system\<close>

text \<open>
  The program points of the loop: at the loop head, after the candidate was generated, and
  after the loop.  \<open>reachable env pt s\<close>: some execution of the loop in \<open>env\<close> is at point
  \<open>pt\<close> with state \<open>s\<close>.
\<close>

datatype point = AtHead | Generated | Finished

inductive reachable :: "'p env \<Rightarrow> point \<Rightarrow> 'p loop_state \<Rightarrow> bool" for env :: "'p env" where
  start: "reachable env AtHead (initial_state env)"
| generate: "reachable env AtHead s \<Longrightarrow> retry_count s \<le> max_retries
     \<Longrightarrow> generate_candidate env s = Inr s1 \<Longrightarrow> reachable env Generated s1"
| again: "reachable env Generated s1 \<Longrightarrow> decide env s1 = Inr (s', Continue)
     \<Longrightarrow> reachable env AtHead s'"
| leave: "reachable env Generated s1 \<Longrightarrow> decide env s1 = Inr (s', Break)
     \<Longrightarrow> reachable env Finished s'"
| exhausted: "reachable env AtHead s \<Longrightarrow> \<not> retry_count s \<le> max_retries
     \<Longrightarrow> reachable env Finished s"

text \<open>The row that a decision appends to the log.\<close>

definition decision_row :: "'p env \<Rightarrow> 'p loop_state \<Rightarrow> string \<Rightarrow> string \<Rightarrow> log_entry" where
  "decision_row env s user_action feedback =
     make_log_entry (env_session_id env) (retry_count s + 1) (env_directory_path env)
       (or_empty (new_directory_name s)) (or_empty (optimal_parent_path s)) user_action feedback []
       (env_analysis_summary env)"

text \<open>What a run of the loop leaves behind, for statements about its result.\<close>

definition calls_of :: "error + 'p loop_state \<Rightarrow> gen_call list" where
  "calls_of r = (case r of Inl e \<Rightarrow> [] | Inr s \<Rightarrow> calls s)"

definition loop_outcome ::
    "error + 'p loop_state \<Rightarrow> error + (string option \<times> nat \<times> string list)" where
  "loop_outcome r = map_sum id (\<lambda>s. (new_directory_name s, retry_count s, feedback_history s)) r"

text \<open>
  The invariant of the loop at each program point: the count is within the limit, one
  feedback and one row per retry so far, one call of the generator per attempt, a
  candidate name whenever one was generated, and only rows that could be written.
\<close>

definition loop_invariant :: "'p env \<Rightarrow> point \<Rightarrow> 'p loop_state \<Rightarrow> bool" where
  "loop_invariant env pt s \<longleftrightarrow>
     retry_count s \<le> max_retries
     \<and> length (feedback_history s) = retry_count s
     \<and> length (calls s) = (if pt = AtHead then retry_count s else retry_count s + 1)
     \<and> (\<forall>c \<in> set (calls s). call_attempt c \<le> max_retries + 1)
     \<and> (pt \<noteq> AtHead \<longrightarrow> truthy (new_directory_name s))
     \<and> length (log s) = (if pt = Finished then retry_count s + 1 else retry_count s)
     \<and> (\<forall>e \<in> set (log s). le_user_action e \<in> {''retry'', ''accept'', ''max_retries_reached''})
     \<and> (\<forall>e \<in> set (log s). env_log_writable env e)"

text \<open>
  The part of \<open>main\<close> from the retry loop to the end: the loop, then the placement of
  the directory under the name it ended with.
\<close>

definition name_and_place :: "'p env \<Rightarrow> place_env \<Rightarrow> (error + outcome) option" where
  "name_and_place env pe =
     (case negotiation_loop env (initial_state env) of
        Inl e \<Rightarrow> Some (Inl e)
      | Inr s \<Rightarrow> place env pe s)"

text \<open>
  What a placement leaves behind: the actions logged, where the directory is, and whether
  it still holds all it held.
\<close>

definition placement_summary ::
    "(error + outcome) option \<Rightarrow> (string list \<times> path \<times> bool) option" where
  "placement_summary r =
     (case r of
        Some (Inr (Placed p)) \<Rightarrow>
          Some (map le_user_action (pl_log p), pl_directory_at p, pl_content_intact p)
      | _ \<Rightarrow> None)"

section \<open>Sample sessions and directories\<close>

text \<open>
  A session in which the user asks for another name at every prompt and types a line of
  feedback each time, with DATA-HOME integration, a working log and a generator that
  replies with a well-formed name.
\<close>

definition scenario_env :: "unit env" where
  "scenario_env =
     \<lparr>env_data_home_root = Some ''/data'',
      env_directory_path = ''/home/user/inbox'',
      env_session_id = ''20261103_101500'',
      env_analysis_summary = \<lparr>total_files_analyzed = 2, had_audio_files = False\<rparr>,
      env_analysis_data = (),
      env_api_key_set = True,
      env_messages_create = (\<lambda>n p. Reply ''docBudgetReview''),
      env_now = (\<lambda>n. \<lparr>year = 2026, month = 11, day = 3\<rparr>),
      env_create_retry_analysis_payload = (\<lambda>n. Some ()),
      env_save_retry_analysis = (\<lambda>n. True),
      env_satisfaction = (\<lambda>n. Two),
      env_feedback_typed = (\<lambda>n. if n = 0 then ''too vague'' else if n = 1 then ''too long''
                                else ''wrong topic''),
      env_log_writable = (\<lambda>e. True)\<rparr>"

text \<open>
  A session in which the user accepts the first candidate, once with a log file that can
  be written and once with one that cannot.
\<close>

definition accepting_env :: "bool \<Rightarrow> unit env" where
  "accepting_env writable =
     \<lparr>env_data_home_root = None,
      env_directory_path = ''/home/user/inbox'',
      env_session_id = ''20261103_101500'',
      env_analysis_summary = \<lparr>total_files_analyzed = 2, had_audio_files = False\<rparr>,
      env_analysis_data = (),
      env_api_key_set = True,
      env_messages_create = (\<lambda>n p. Reply ''docBudgetReview''),
      env_now = (\<lambda>n. \<lparr>year = 2026, month = 11, day = 3\<rparr>),
      env_create_retry_analysis_payload = (\<lambda>n. Some ()),
      env_save_retry_analysis = (\<lambda>n. True),
      env_satisfaction = (\<lambda>n. One),
      env_feedback_typed = (\<lambda>n. []),
      env_log_writable = (\<lambda>e. writable)\<rparr>"

text \<open>
  A session started as \<open>python main_orchastrator.py .\<close> with DATA-HOME integration: the
  generator replies \<open>notes\<close>, the user accepts it and consents to the move.  The current
  directory cannot be renamed, so \<open>shutil.move\<close> copies its files to the destination,
  removes them from it and raises when it cannot remove the directory itself; the local
  rename fails for the same reason.
\<close>

definition here_env :: "unit env" where
  "here_env =
     \<lparr>env_data_home_root = Some ''/data'',
      env_directory_path = ''.'',
      env_session_id = ''20261103_101500'',
      env_analysis_summary = \<lparr>total_files_analyzed = 2, had_audio_files = False\<rparr>,
      env_analysis_data = (),
      env_api_key_set = True,
      env_messages_create = (\<lambda>n p. Reply ''notes''),
      env_now = (\<lambda>n. \<lparr>year = 2026, month = 11, day = 3\<rparr>),
      env_create_retry_analysis_payload = (\<lambda>n. Some ()),
      env_save_retry_analysis = (\<lambda>n. True),
      env_satisfaction = (\<lambda>n. One),
      env_feedback_typed = (\<lambda>n. []),
      env_log_writable = (\<lambda>e. True)\<rparr>"

definition here_place_env :: place_env where
  "here_place_env =
     \<lparr>pe_target_directory = (''.'', []),
      pe_exists = (\<lambda>p. False),
      pe_consent = True,
      pe_makedirs_ok = True,
      pe_move = RaisedAfterCopying,
      pe_rename_ok = False,
      pe_error_text = (\<lambda>c. ''Invalid argument'')\<rparr>"




text \<open>
  The name the loop's generator call of attempt \<open>n + 1\<close> returns when it is given the
  analysis payload and the feedback history as lines 161 to 191 pass them: the first
  attempt without feedback (through \<open>generate_directory_name_and_path\<close> with DATA-HOME
  integration, through \<open>generate_directory_name\<close> without), every later attempt with the
  history joined by \<open>" | "\<close>.
\<close>

definition name_from_history :: "'p env \<Rightarrow> nat \<Rightarrow> 'p \<Rightarrow> string list \<Rightarrow> string option" where
  "name_from_history env n analysis history =
     (if n = 0 then
        (if truthy (env_data_home_root env)
         then generate_directory_name_with_feedback (the_client env 0) analysis None (env_now env 0)
         else generate_directory_name (the_client env 0) analysis (env_now env 0))
      else generate_directory_name_with_feedback (the_client env n) analysis
             (Some (py_join '' | '' history)) (env_now env n))"

definition log_of :: "error + 'p loop_state \<Rightarrow> log_entry list" where
  "log_of r = (case r of Inl e \<Rightarrow> [] | Inr s \<Rightarrow> log s)"

text \<open>
  The same session with a generator whose reply depends on the feedback section of the
  prompt, so that the candidates show which feedback each call was given.
\<close>

definition reply_by_feedback :: "unit prompt \<Rightarrow> api_outcome" where
  "reply_by_feedback p =
     (case p of
        NamingPrompt a \<Rightarrow> Reply ''firstDraft''
      | NamingPromptWithFeedback a None \<Rightarrow> Reply ''firstDraft''
      | NamingPromptWithFeedback a (Some f) \<Rightarrow>
          if f = ''too vague'' then Reply ''budgetReview''
          else if f = ''too vague | too long'' then Reply ''budget''
          else if f = ''too vague | too long | wrong topic'' then Reply ''travelNotes''
          else Reply ''otherName'')"

definition listening_env :: "unit env" where
  "listening_env = scenario_env\<lparr>env_messages_create := (\<lambda>n. reply_by_feedback)\<rparr>"

section \<open>Facts about the string operations\<close>

lemma code_point_digit_char: "d < 10 \<Longrightarrow> code_point (digit_char d) = 48 + d"
  by (simp add: code_point_def digit_char_def)

lemma is_digit_digit_char: "d < 10 \<Longrightarrow> is_digit_09 (digit_char d)"
  by (simp add: is_digit_09_def code_point_digit_char)

lemma str_nat_digits: "list_all is_digit_09 (str_nat n)"
proof (induction n rule: str_nat.induct)
  case (1 n)
  show ?case
  proof (cases "n < 10")
    case True
    then show ?thesis by (subst str_nat.simps) (simp add: is_digit_digit_char)
  next
    case False
    with 1 show ?thesis by (subst str_nat.simps) (simp add: is_digit_digit_char)
  qed
qed

lemma str_nat_length_1: "n < 10 \<Longrightarrow> length (str_nat n) = 1"
  by (subst str_nat.simps) simp

lemma str_nat_length_step: "\<not> n < 10 \<Longrightarrow> length (str_nat n) = Suc (length (str_nat (n div 10)))"
  by (subst str_nat.simps) simp

lemma str_nat_length_2: "n < 100 \<Longrightarrow> length (str_nat n) \<le> 2"
  by (cases "n < 10") (simp_all add: str_nat_length_1 str_nat_length_step)

lemma str_nat_length_3: "n < 1000 \<Longrightarrow> length (str_nat n) \<le> 3"
  using str_nat_length_2[of "n div 10"]
  by (cases "n < 10") (simp_all add: str_nat_length_1 str_nat_length_step)

lemma str_nat_length_4: "n < 10000 \<Longrightarrow> length (str_nat n) \<le> 4"
  using str_nat_length_3[of "n div 10"]
  by (cases "n < 10") (simp_all add: str_nat_length_1 str_nat_length_step)

lemma zfill_length: "length s \<le> w \<Longrightarrow> length (zfill w s) = w"
  by (simp add: zfill_def)

lemma zero_is_digit: "is_digit_09 (CHR ''0'')"
  by (simp add: is_digit_09_def code_point_def)

lemma zfill_digits: "list_all is_digit_09 s \<Longrightarrow> list_all is_digit_09 (zfill w s)"
  by (auto simp: zfill_def zero_is_digit list_all_iff)

lemma strftime_Ymd_length: "valid_date d \<Longrightarrow> length (strftime_Ymd d) = 8"
proof -
  assume v: "valid_date d"
  then have "length (str_nat (year d)) \<le> 4" "length (str_nat (month d)) \<le> 2" "length (str_nat (day d)) \<le> 2"
    by (auto simp: valid_date_def intro!: str_nat_length_4 str_nat_length_2)
  then show ?thesis by (simp add: strftime_Ymd_def zfill_length)
qed

lemma strftime_Ymd_digits: "list_all is_digit_09 (strftime_Ymd d)"
  by (simp add: strftime_Ymd_def zfill_digits str_nat_digits)

lemma zfill2_str_nat:
  assumes "n < 100"
  shows "zfill 2 (str_nat n) = [digit_char (n div 10), digit_char (n mod 10)]"
proof (cases "n < 10")
  case True
  then have "str_nat n = [digit_char n]" by (subst str_nat.simps) simp
  moreover have "digit_char 0 = CHR ''0''" by code_simp
  ultimately show ?thesis using True by (simp add: zfill_def)
next
  case False
  with assms have "n div 10 < 10" by simp
  then have "str_nat (n div 10) = [digit_char (n div 10)]" by (subst str_nat.simps) simp
  with False have "str_nat n = [digit_char (n div 10), digit_char (n mod 10)]"
    by (subst str_nat.simps) simp
  then show ?thesis by (simp add: zfill_def)
qed

lemma str_nat_step: "10 \<le> n \<Longrightarrow> str_nat n = str_nat (n div 10) @ [digit_char (n mod 10)]"
  by (subst str_nat.simps) simp

lemma zfill4_str_nat:
  assumes "1000 \<le> n" and "n < 10000"
  shows "zfill 4 (str_nat n) = [digit_char (n div 1000), digit_char (n div 100 mod 10),
           digit_char (n div 10 mod 10), digit_char (n mod 10)]"
proof -
  have a: "n div 10 div 10 = n div 100" "n div 10 div 10 div 10 = n div 1000"
    by (simp_all add: div_mult2_eq[symmetric])
  have "n div 1000 < 10" using assms by simp
  then have d: "str_nat (n div 1000) = [digit_char (n div 1000)]" by (subst str_nat.simps) simp
  have "10 \<le> n div 100" using assms by simp
  then have c: "str_nat (n div 100) = str_nat (n div 1000) @ [digit_char (n div 100 mod 10)]"
    using str_nat_step[of "n div 100"] by (simp add: div_mult2_eq[symmetric])
  have "10 \<le> n div 10" using assms by simp
  then have b: "str_nat (n div 10) = str_nat (n div 100) @ [digit_char (n div 10 mod 10)]"
    using str_nat_step[of "n div 10"] by (simp add: div_mult2_eq[symmetric])
  have "10 \<le> n" using assms by simp
  then have "str_nat n = str_nat (n div 10) @ [digit_char (n mod 10)]" by (rule str_nat_step)
  with b c d show ?thesis by (simp add: zfill_def)
qed

lemma of_char_digit_char: "d < 10 \<Longrightarrow> of_char (digit_char d) = (48 + d :: nat)"
  by (simp add: digit_char_def)

lemma strftime_Ymd_code_points:
  assumes "valid_date d"
  shows "map of_char (strftime_Ymd d) =
     [48 + year d div 1000, 48 + year d div 100 mod 10, 48 + year d div 10 mod 10, 48 + year d mod 10,
      48 + month d div 10, 48 + month d mod 10, 48 + day d div 10, 48 + day d mod 10 :: nat]"
proof -
  from assms have y: "1000 \<le> year d" "year d < 10000" and m: "month d < 100" and dd: "day d < 100"
    by (simp_all add: valid_date_def)
  have "year d div 1000 < 10" using y by simp
  moreover have "month d div 10 < 10" "day d div 10 < 10" using m dd by simp_all
  ultimately show ?thesis
    by (simp add: strftime_Ymd_def zfill4_str_nat[OF y] zfill2_str_nat[OF m] zfill2_str_nat[OF dd]
        of_char_digit_char)
qed

lemma digit_is_alnum: "is_digit_09 c \<Longrightarrow> is_alnum_class c"
  by (simp add: is_alnum_class_def)

lemma alnum_star_dollar_iff:
  "re_alnum_star_dollar cs \<longleftrightarrow>
     list_all is_alnum_class cs \<or> (\<exists>b. cs = b @ [newline] \<and> list_all is_alnum_class b)"
proof (induction cs)
  case Nil
  then show ?case by (simp add: re_dollar_def)
next
  case (Cons c cs)
  show ?case
  proof
    assume "re_alnum_star_dollar (c # cs)"
    then consider "is_alnum_class c" "re_alnum_star_dollar cs" | "c = newline" "cs = []"
      by (auto simp: re_dollar_def)
    then show "list_all is_alnum_class (c # cs) \<or> (\<exists>b. c # cs = b @ [newline] \<and> list_all is_alnum_class b)"
    proof cases
      case 1
      with Cons.IH consider "list_all is_alnum_class cs" | b where "cs = b @ [newline]" "list_all is_alnum_class b"
        by auto
      then show ?thesis
      proof cases
        case 1
        with \<open>is_alnum_class c\<close> show ?thesis by simp
      next
        case 2
        with \<open>is_alnum_class c\<close> have "c # cs = (c # b) @ [newline] \<and> list_all is_alnum_class (c # b)" by simp
        then show ?thesis by blast
      qed
    next
      case 2
      then have "c # cs = [] @ [newline] \<and> list_all is_alnum_class []" by simp
      then show ?thesis by blast
    qed
  next
    assume "list_all is_alnum_class (c # cs) \<or> (\<exists>b. c # cs = b @ [newline] \<and> list_all is_alnum_class b)"
    then consider "list_all is_alnum_class (c # cs)" | b where "c # cs = b @ [newline]" "list_all is_alnum_class b"
      by auto
    then show "re_alnum_star_dollar (c # cs)"
    proof cases
      case 1
      with Cons.IH show ?thesis by simp
    next
      case 2
      show ?thesis
      proof (cases b)
        case Nil
        with 2 show ?thesis by (simp add: re_dollar_def)
      next
        case (Cons b0 bs)
        with 2 have "c = b0" "cs = bs @ [newline]" "is_alnum_class b0" "list_all is_alnum_class bs" by auto
        with Cons.IH show ?thesis by auto
      qed
    qed
  qed
qed

lemma alnum_imp_star_dollar: "list_all is_alnum_class cs \<Longrightarrow> re_alnum_star_dollar cs"
  by (simp add: alnum_star_dollar_iff)

lemma fallback_name_valid: "valid_date d \<Longrightarrow> validate_directory_name (create_fallback_name d)"
proof -
  assume v: "valid_date d"
  have len: "length (create_fallback_name d) = 22"
    using strftime_Ymd_length[OF v] by (simp add: create_fallback_name_def)
  have "list_all is_alnum_class (strftime_Ymd d)"
    using strftime_Ymd_digits[of d] by (simp add: list_all_iff digit_is_alnum)
  moreover have "list_all is_alnum_class ''rocessedAudio''"
    by (simp add: is_alnum_class_def is_lower_az_def is_upper_AZ_def is_digit_09_def code_point_def)
  ultimately have "re_alnum_star_dollar (''rocessedAudio'' @ strftime_Ymd d)"
    by (intro alnum_imp_star_dollar) simp
  moreover have "is_lower_az (CHR ''p'')" by (simp add: is_lower_az_def code_point_def)
  ultimately have "re_match_camel (create_fallback_name d)"
    by (simp add: re_match_camel_def create_fallback_name_def)
  with len show ?thesis by (simp add: validate_directory_name_def)
qed

lemma newline_not_alnum: "\<not> is_alnum_class newline"
  by (simp add: is_alnum_class_def is_lower_az_def is_upper_AZ_def is_digit_09_def
      code_point_def newline_def)

section \<open>The name validator\<close>

lemma validate_directory_name_iff:
  "validate_directory_name name \<longleftrightarrow>
     length name \<le> 75 \<and>
     (\<exists>c cs. name = c # cs \<and> is_lower_az c \<and>
        (list_all is_alnum_class cs \<or> (\<exists>b. cs = b @ [newline] \<and> list_all is_alnum_class b)))"
  by (cases name) (auto simp: validate_directory_name_def re_match_camel_def alnum_star_dollar_iff)

lemma validate_is_rule_without_final_newline:
  assumes "name = [] \<or> last name \<noteq> newline"
  shows "validate_directory_name name \<longleftrightarrow> name_rule_as_specified name"
proof (cases name)
  case Nil
  then show ?thesis by (simp add: validate_directory_name_iff name_rule_as_specified_def)
next
  case (Cons c cs)
  with assms have l: "last (c # cs) \<noteq> newline" by simp
  have "\<not> (\<exists>b. cs = b @ [newline] \<and> list_all is_alnum_class b)"
  proof
    assume "\<exists>b. cs = b @ [newline] \<and> list_all is_alnum_class b"
    then obtain b where "cs = b @ [newline]" by blast
    then have "last (c # cs) = newline" by simp
    with l show False by simp
  qed
  with Cons show ?thesis
    by (auto simp: validate_directory_name_iff name_rule_as_specified_def)
qed

lemma rule_imp_validate: "name_rule_as_specified name \<Longrightarrow> validate_directory_name name"
  by (cases name) (auto simp: validate_directory_name_iff name_rule_as_specified_def)

text \<open>
  Claim C5.  The validator is meant to accept exactly the names of at most 75 characters
  that are a lowercase letter followed by alphanumeric characters only.  Python's \<open>$\<close>
  also matches before a final newline, so the validator accepts \<open>abc\<close> followed by a
  newline, which the rule excludes.
\<close>

theorem validate_accepts_final_newline:
  "validate_directory_name (''abc'' @ [newline]) \<and> \<not> name_rule_as_specified (''abc'' @ [newline])"
  by (simp add: validate_directory_name_def re_match_camel_def re_dollar_def
      name_rule_as_specified_def is_lower_az_def is_alnum_class_def is_upper_AZ_def is_digit_09_def
      code_point_def newline_def)

section \<open>Name generation and the fallback name\<close>

lemma generate_directory_name_cases:
  "generate_directory_name client payload now =
     (if naming_failure client (create_naming_prompt payload) then Some (create_fallback_name now)
      else Some (py_strip (case the client (create_naming_prompt payload) of Reply t \<Rightarrow> t | Raised \<Rightarrow> [])))"
  by (auto simp: generate_directory_name_def naming_failure_def Let_def
      split: option.splits api_outcome.splits)

lemma generate_directory_name_with_feedback_cases:
  "generate_directory_name_with_feedback client payload feedback now =
     (if naming_failure client (create_naming_prompt_with_feedback payload feedback)
      then Some (create_fallback_name now)
      else Some (py_strip (case the client (create_naming_prompt_with_feedback payload feedback) of
                             Reply t \<Rightarrow> t | Raised \<Rightarrow> [])))"
  by (auto simp: generate_directory_name_with_feedback_def naming_failure_def Let_def
      split: option.splits api_outcome.splits)

lemma not_failure_validated:
  "\<not> naming_failure client prompt \<Longrightarrow>
     validate_directory_name (py_strip (case the client prompt of Reply t \<Rightarrow> t | Raised \<Rightarrow> []))"
  by (auto simp: naming_failure_def split: option.splits api_outcome.splits)

text \<open>
  Claim C8.  On any naming failure (no client, an exception from the external call, a
  reply that fails validation) both generators return the fallback name, which is
  \<open>processedAudio\<close> followed by the current date as eight decimal digits: the four digits
  of the year, the two of the month and the two of the day, each digit the character with
  code point 48 plus its value.  The fallback name passes the validator, so the generators
  always return a name that passes it.
\<close>

theorem fallback_on_naming_failure:
  assumes "valid_date now"
  shows "(naming_failure client (create_naming_prompt payload) \<longrightarrow>
            generate_directory_name client payload now = Some (create_fallback_name now))
       \<and> (naming_failure client (create_naming_prompt_with_feedback payload feedback) \<longrightarrow>
            generate_directory_name_with_feedback client payload feedback now
              = Some (create_fallback_name now))
       \<and> create_fallback_name now = ''processedAudio'' @ strftime_Ymd now
       \<and> length (strftime_Ymd now) = 8 \<and> list_all is_digit_09 (strftime_Ymd now)
       \<and> map of_char (strftime_Ymd now) =
            [48 + year now div 1000, 48 + year now div 100 mod 10, 48 + year now div 10 mod 10,
             48 + year now mod 10, 48 + month now div 10, 48 + month now mod 10,
             48 + day now div 10, 48 + day now mod 10 :: nat]
       \<and> validate_directory_name (create_fallback_name now)
       \<and> (\<exists>name. generate_directory_name client payload now = Some name
                  \<and> validate_directory_name name)
       \<and> (\<exists>name. generate_directory_name_with_feedback client payload feedback now = Some name
                  \<and> validate_directory_name name)"
proof -
  have ok: "validate_directory_name (create_fallback_name now)"
    using assms by (rule fallback_name_valid)
  have g1: "\<exists>name. generate_directory_name client payload now = Some name
                  \<and> validate_directory_name name"
    using ok by (simp add: generate_directory_name_cases not_failure_validated)
  have g2: "\<exists>name. generate_directory_name_with_feedback client payload feedback now = Some name
                  \<and> validate_directory_name name"
    using ok by (simp add: generate_directory_name_with_feedback_cases not_failure_validated)
  have f1: "naming_failure client (create_naming_prompt payload) \<longrightarrow>
            generate_directory_name client payload now = Some (create_fallback_name now)"
    by (simp add: generate_directory_name_cases)
  have f2: "naming_failure client (create_naming_prompt_with_feedback payload feedback) \<longrightarrow>
            generate_directory_name_with_feedback client payload feedback now
              = Some (create_fallback_name now)"
    by (simp add: generate_directory_name_with_feedback_cases)
  have n: "create_fallback_name now = ''processedAudio'' @ strftime_Ymd now"
    by (simp add: create_fallback_name_def)
  show ?thesis
    by (intro conjI f1 f2 n ok g1 g2 strftime_Ymd_length[OF assms] strftime_Ymd_digits
        strftime_Ymd_code_points[OF assms])
qed

theorem fallback_on_naming_failure_witness:
  "valid_date \<lparr>year = 2026, month = 11, day = 3\<rparr>
   \<and> naming_failure (Some (\<lambda>p. Reply ''not a name'')) (create_naming_prompt ())
   \<and> naming_failure (Some (\<lambda>p. Reply ''not a name''))
         (create_naming_prompt_with_feedback () (Some ''shorter''))
   \<and> generate_directory_name (Some (\<lambda>p. Reply ''not a name'')) () \<lparr>year = 2026, month = 11, day = 3\<rparr>
        = Some ''processedAudio20261103''
   \<and> generate_directory_name_with_feedback (Some (\<lambda>p. Reply ''not a name'')) () (Some ''shorter'')
        \<lparr>year = 2026, month = 11, day = 3\<rparr> = Some ''processedAudio20261103''
   \<and> validate_directory_name ''processedAudio20261103''"
proof -
  let ?d = "\<lparr>year = 2026, month = 11, day = 3\<rparr>"
  let ?c = "Some (\<lambda>p :: unit prompt. Reply ''not a name'')"
  have v: "valid_date ?d" by (simp add: valid_date_def)
  have bad: "\<not> validate_directory_name (py_strip ''not a name'')"
    by (simp add: validate_directory_name_def re_match_camel_def py_strip_def
        py_isspace_def re_dollar_def is_alnum_class_def is_lower_az_def is_upper_AZ_def
        is_digit_09_def code_point_def newline_def)
  have f1: "naming_failure ?c (create_naming_prompt ())"
    using bad by (simp add: naming_failure_def)
  have f2: "naming_failure ?c (create_naming_prompt_with_feedback () (Some ''shorter''))"
    using bad by (simp add: naming_failure_def)
  have n: "create_fallback_name ?d = ''processedAudio20261103''"
    by code_simp
  note t = fallback_on_naming_failure[OF v, where client = ?c and payload = "()"
      and feedback = "Some ''shorter''"]
  from t f1 have a: "generate_directory_name ?c () ?d = Some (create_fallback_name ?d)"
    by blast
  from t f2 have b: "generate_directory_name_with_feedback ?c () (Some ''shorter'') ?d
      = Some (create_fallback_name ?d)"
    by blast
  from t have c: "validate_directory_name (create_fallback_name ?d)"
    by blast
  from a b c v f1 f2 show ?thesis
    unfolding n by blast
qed

section \<open>The retry loop\<close>

lemma validated_nonempty: "validate_directory_name name \<Longrightarrow> name \<noteq> []"
  by (auto simp: validate_directory_name_iff)

lemma fallback_nonempty: "create_fallback_name now \<noteq> []"
  by (simp add: create_fallback_name_def)

lemma generate_directory_name_nonempty:
  "\<exists>name. generate_directory_name client payload now = Some name \<and> name \<noteq> []"
  by (auto simp: generate_directory_name_def Let_def fallback_nonempty validated_nonempty
      split: option.splits api_outcome.splits)

lemma generate_directory_name_with_feedback_nonempty:
  "\<exists>name. generate_directory_name_with_feedback client payload feedback now = Some name \<and> name \<noteq> []"
  by (auto simp: generate_directory_name_with_feedback_def Let_def fallback_nonempty
      validated_nonempty split: option.splits api_outcome.splits)

lemma generate_directory_name_truthy: "truthy (generate_directory_name client payload now)"
  using generate_directory_name_nonempty[of client payload now] by (auto simp: truthy_def)

lemma generate_directory_name_with_feedback_truthy:
  "truthy (generate_directory_name_with_feedback client payload feedback now)"
  using generate_directory_name_with_feedback_nonempty[of client payload feedback now]
  by (auto simp: truthy_def)

lemma generate_and_path_truthy:
  "truthy (fst (generate_directory_name_and_path_with_feedback client payload root src feedback now))"
  using generate_directory_name_with_feedback_nonempty[of client payload feedback now]
  by (auto simp: generate_directory_name_and_path_with_feedback_def truthy_def)

lemma generate_candidate_effect:
  assumes "generate_candidate env s = Inr s1"
  shows "retry_count s1 = retry_count s" and "feedback_history s1 = feedback_history s"
    and "log s1 = log s" and "truthy (new_directory_name s1)"
    and "calls s1 = calls s @ [\<lparr>call_attempt = retry_count s + 1, call_history = feedback_history s,
            call_feedback = (if retry_count s = 0 then None
                             else Some (py_join '' | '' (feedback_history s)))\<rparr>]"
proof -
  show "retry_count s1 = retry_count s" "feedback_history s1 = feedback_history s" "log s1 = log s"
    using assms
    by (auto simp: generate_candidate_def Let_def split: if_splits option.splits prod.splits)
  show "calls s1 = calls s @ [\<lparr>call_attempt = retry_count s + 1, call_history = feedback_history s,
            call_feedback = (if retry_count s = 0 then None
                             else Some (py_join '' | '' (feedback_history s)))\<rparr>]"
    using assms
    by (auto simp: generate_candidate_def Let_def split: if_splits option.splits prod.splits)
  show "truthy (new_directory_name s1)"
  proof (cases "truthy (env_data_home_root env)")
    case True
    then show ?thesis
      using assms generate_and_path_truthy
      by (auto simp: generate_candidate_def Let_def generate_directory_name_and_path_def
          split: if_splits option.splits prod.splits dest!: arg_cong[where f=fst])
  next
    case False
    then show ?thesis
      using assms
      by (auto simp: generate_candidate_def Let_def generate_directory_name_truthy
          generate_directory_name_with_feedback_truthy split: if_splits option.splits)
  qed
qed


lemma log_attempt_eq:
  "log_attempt env s (or_empty (new_directory_name s)) user_action feedback =
     (if env_log_writable env (decision_row env s user_action feedback)
      then Inr (s\<lparr>log := log s @ [decision_row env s user_action feedback]\<rparr>)
      else Inl LogWriteError)"
  by (simp add: log_attempt_def log_naming_attempt_def decision_row_def)

lemma decision_row_action [simp]: "le_user_action (decision_row env s a f) = a"
  by (simp add: decision_row_def make_log_entry_def)

lemma decision_row_name [simp]:
  "le_generated_name (decision_row env s a f) = or_empty (new_directory_name s)"
  by (simp add: decision_row_def make_log_entry_def)

lemma decision_row_attempt [simp]:
  "le_attempt_number (decision_row env s a f) = retry_count s + 1"
  by (simp add: decision_row_def make_log_entry_def)

lemma decision_row_history [simp]:
  "decision_row env (s\<lparr>feedback_history := h\<rparr>) a f = decision_row env s a f"
  by (simp add: decision_row_def)

text \<open>
  With a candidate name the decision has three outcomes; the \<open>cancel\<close> branch is never
  taken, since the prompt only returns \<open>accept\<close> or \<open>retry\<close>.
\<close>

lemma decide_with_name:
  assumes "truthy (new_directory_name s)"
  shows "decide env s =
     (case env_satisfaction env (retry_count s) of
        One \<Rightarrow>
          (if env_log_writable env (decision_row env s ''accept'' [])
           then Inr (s\<lparr>log := log s @ [decision_row env s ''accept'' []]\<rparr>, Break)
           else Inl LogWriteError)
      | Two \<Rightarrow>
          (if retry_count s < max_retries then
             (let feedback = collect_user_feedback (env_feedback_typed env (retry_count s)) in
              if env_log_writable env (decision_row env s ''retry'' feedback)
              then Inr (s\<lparr>feedback_history := feedback_history s @ [feedback],
                          log := log s @ [decision_row env s ''retry'' feedback],
                          retry_count := retry_count s + 1\<rparr>, Continue)
              else Inl LogWriteError)
           else
             (if env_log_writable env (decision_row env s ''max_retries_reached'' [])
              then Inr (s\<lparr>log := log s @ [decision_row env s ''max_retries_reached'' []]\<rparr>, Break)
              else Inl LogWriteError)))"
proof (cases "env_satisfaction env (retry_count s)")
  case One
  with assms show ?thesis
    by (simp add: decide_def prompt_user_naming_satisfaction_def Let_def log_attempt_eq)
next
  case Two
  have h: "log_attempt env (s\<lparr>feedback_history := h\<rparr>) (or_empty (new_directory_name s)) a f =
     (if env_log_writable env (decision_row env s a f)
      then Inr (s\<lparr>feedback_history := h, log := log s @ [decision_row env s a f]\<rparr>)
      else Inl LogWriteError)" for h a f
    using log_attempt_eq[of env "s\<lparr>feedback_history := h\<rparr>" a f] by simp
  from Two assms show ?thesis
    by (simp add: decide_def prompt_user_naming_satisfaction_def Let_def log_attempt_eq h)
qed

lemma decide_Continue:
  assumes "truthy (new_directory_name s)" and "decide env s = Inr (s', Continue)"
  shows "retry_count s < max_retries" and "retry_count s' = retry_count s + 1"
    and "feedback_history s' = feedback_history s
           @ [collect_user_feedback (env_feedback_typed env (retry_count s))]"
    and "calls s' = calls s" and "new_directory_name s' = new_directory_name s"
    and "log s' = log s @ [decision_row env s ''retry''
           (collect_user_feedback (env_feedback_typed env (retry_count s)))]"
    and "env_log_writable env (decision_row env s ''retry''
           (collect_user_feedback (env_feedback_typed env (retry_count s))))"
  using assms(2) unfolding decide_with_name[OF assms(1)]
  by (auto simp: Let_def split: menu_answer.splits if_splits)

lemma decide_Break:
  assumes "truthy (new_directory_name s)" and "decide env s = Inr (s', Break)"
  shows "retry_count s' = retry_count s" and "feedback_history s' = feedback_history s"
    and "calls s' = calls s" and "new_directory_name s' = new_directory_name s"
    and "optimal_parent_path s' = optimal_parent_path s"
    and "(env_satisfaction env (retry_count s) = One
            \<and> log s' = log s @ [decision_row env s ''accept'' []]
            \<and> env_log_writable env (decision_row env s ''accept'' []))
         \<or> (env_satisfaction env (retry_count s) = Two \<and> retry_count s = max_retries
            \<and> log s' = log s @ [decision_row env s ''max_retries_reached'' []]
            \<and> env_log_writable env (decision_row env s ''max_retries_reached'' []))
         \<or> (env_satisfaction env (retry_count s) = Two \<and> retry_count s > max_retries
            \<and> log s' = log s @ [decision_row env s ''max_retries_reached'' []]
            \<and> env_log_writable env (decision_row env s ''max_retries_reached'' []))"
  using assms(2) unfolding decide_with_name[OF assms(1)]
  by (auto simp: Let_def split: menu_answer.splits if_splits)

lemma reachable_invariant: "reachable env pt s \<Longrightarrow> loop_invariant env pt s"
proof (induction rule: reachable.induct)
  case start
  then show ?case by (simp add: loop_invariant_def initial_state_def)
next
  case (generate s s1)
  from generate_candidate_effect[OF generate.hyps(3)] generate.IH generate.hyps(2)
  show ?case by (auto simp: loop_invariant_def)
next
  case (again s1 s')
  then have t: "truthy (new_directory_name s1)" by (simp add: loop_invariant_def)
  from decide_Continue[OF t again.hyps(2)] again.IH
  show ?case by (auto simp: loop_invariant_def)
next
  case (leave s1 s')
  then have t: "truthy (new_directory_name s1)" by (simp add: loop_invariant_def)
  from decide_Break[OF t leave.hyps(2)] leave.IH
  show ?case by (auto simp: loop_invariant_def)
next
  case (exhausted s)
  then show ?case by (simp add: loop_invariant_def)
qed


lemma negotiation_loop_unfold_retry:
  assumes "retry_count s \<le> max_retries" and "loop_body env s = Inr (s', Continue)"
  shows "negotiation_loop env s = negotiation_loop env s'"
  using assms by (subst negotiation_loop.simps) simp

lemma negotiation_loop_unfold_break:
  assumes "retry_count s \<le> max_retries" and "loop_body env s = Inr (s', Break)"
  shows "negotiation_loop env s = Inr s'"
  using assms by (subst negotiation_loop.simps) simp

lemma negotiation_loop_unfold_error:
  assumes "retry_count s \<le> max_retries" and "loop_body env s = Inl e"
  shows "negotiation_loop env s = Inl e"
  using assms by (subst negotiation_loop.simps) simp

lemma loop_body_Inr:
  "loop_body env s = Inr c \<longleftrightarrow> (\<exists>s1. generate_candidate env s = Inr s1 \<and> decide env s1 = Inr c)"
  by (auto simp: loop_body_def split: sum.splits)

lemma negotiation_loop_reachable:
  "reachable env AtHead s \<Longrightarrow> negotiation_loop env s = Inr s' \<Longrightarrow> reachable env Finished s'"
proof (induction env s rule: negotiation_loop.induct)
  case (1 env s)
  show ?case
  proof (cases "retry_count s \<le> max_retries")
    case False
    with "1.prems" show ?thesis
      by (subst (asm) negotiation_loop.simps) (auto intro: reachable.exhausted)
  next
    case True
    show ?thesis
    proof (cases "loop_body env s")
      case (Inl e)
      with True "1.prems" show ?thesis
        by (simp add: negotiation_loop_unfold_error)
    next
      case (Inr c)
      obtain s2 fl where c: "c = (s2, fl)" by (cases c)
      from Inr c obtain s1 where g: "generate_candidate env s = Inr s1"
        and d: "decide env s1 = Inr (s2, fl)"
        by (auto simp: loop_body_Inr)
      have r1: "reachable env Generated s1"
        using "1.prems"(1) True g by (rule reachable.generate)
      show ?thesis
      proof (cases fl)
        case Continue
        with r1 d have r2: "reachable env AtHead s2" by (auto intro: reachable.again)
        from Continue Inr c True have "negotiation_loop env s = negotiation_loop env s2"
          by (simp add: negotiation_loop_unfold_retry)
        with "1.prems"(2) have "negotiation_loop env s2 = Inr s'" by simp
        from "1.IH"[OF True Inr c[symmetric] Continue r2 this] show ?thesis .
      next
        case Break
        with Inr c True have "negotiation_loop env s = Inr s2"
          by (simp add: negotiation_loop_unfold_break)
        with "1.prems"(2) have "s2 = s'" by simp
        with r1 d Break show ?thesis by (auto intro: reachable.leave)
      qed
    qed
  qed
qed

lemma negotiation_loop_finished:
  "negotiation_loop env (initial_state env) = Inr s' \<Longrightarrow> reachable env Finished s'"
  using negotiation_loop_reachable[OF reachable.start] .

text \<open>An iteration in which the user asks for another name while retries are left.\<close>

lemma generate_candidate_succeeds:
  assumes "\<forall>n. env_create_retry_analysis_payload env n \<noteq> None \<and> env_save_retry_analysis env n"
  shows "\<exists>s1. generate_candidate env s = Inr s1"
proof -
  from assms obtain a where "env_create_retry_analysis_payload env (retry_count s) = Some a"
    and "env_save_retry_analysis env (retry_count s)"
    by (metis option.exhaust)
  then show ?thesis
    by (auto simp: generate_candidate_def Let_def split: prod.splits)
qed

lemma retry_iteration:
  assumes ok: "\<forall>n. env_create_retry_analysis_payload env n \<noteq> None \<and> env_save_retry_analysis env n"
    and wr: "\<forall>e. env_log_writable env e"
    and two: "env_satisfaction env (retry_count s) = Two"
    and lt: "retry_count s < max_retries"
  obtains s' where "negotiation_loop env s = negotiation_loop env s'"
    and "retry_count s' = retry_count s + 1"
    and "feedback_history s' = feedback_history s
           @ [collect_user_feedback (env_feedback_typed env (retry_count s))]"
    and "calls s' = calls s @ [\<lparr>call_attempt = retry_count s + 1, call_history = feedback_history s,
            call_feedback = (if retry_count s = 0 then None
                             else Some (py_join '' | '' (feedback_history s)))\<rparr>]"
    and "map le_user_action (log s') = map le_user_action (log s) @ [''retry'']"
    and "map le_user_feedback (log s') = map le_user_feedback (log s)
           @ [collect_user_feedback (env_feedback_typed env (retry_count s))]"
proof -
  from generate_candidate_succeeds[OF ok] obtain s1 where g: "generate_candidate env s = Inr s1"
    by blast
  note e = generate_candidate_effect[OF g]
  let ?f = "collect_user_feedback (env_feedback_typed env (retry_count s))"
  let ?s' = "s1\<lparr>feedback_history := feedback_history s1 @ [?f],
                log := log s1 @ [decision_row env s1 ''retry'' ?f],
                retry_count := retry_count s1 + 1\<rparr>"
  have d: "decide env s1 = Inr (?s', Continue)"
    using e(1,4) two lt wr by (simp add: decide_with_name Let_def)
  with g have "loop_body env s = Inr (?s', Continue)" by (simp add: loop_body_def)
  with lt have "negotiation_loop env s = negotiation_loop env ?s'"
    by (intro negotiation_loop_unfold_retry) simp_all
  moreover have "le_user_feedback (decision_row env s1 ''retry'' ?f) = ?f"
    by (simp add: decision_row_def make_log_entry_def)
  ultimately show ?thesis
    using e by (intro that[of ?s']) simp_all
qed

lemma last_iteration:
  assumes ok: "\<forall>n. env_create_retry_analysis_payload env n \<noteq> None \<and> env_save_retry_analysis env n"
    and wr: "\<forall>e. env_log_writable env e"
    and two: "env_satisfaction env (retry_count s) = Two"
    and eq: "retry_count s = max_retries"
  obtains s' where "negotiation_loop env s = Inr s'"
    and "retry_count s' = retry_count s"
    and "feedback_history s' = feedback_history s"
    and "calls s' = calls s @ [\<lparr>call_attempt = retry_count s + 1, call_history = feedback_history s,
            call_feedback = (if retry_count s = 0 then None
                             else Some (py_join '' | '' (feedback_history s)))\<rparr>]"
    and "map le_user_action (log s') = map le_user_action (log s) @ [''max_retries_reached'']"
    and "map le_user_feedback (log s') = map le_user_feedback (log s) @ [[]]"
    and "truthy (new_directory_name s')"
    and "log s' \<noteq> []" and "le_generated_name (last (log s')) = or_empty (new_directory_name s')"
    and "le_attempt_number (last (log s')) = max_retries + 1"
proof -
  from generate_candidate_succeeds[OF ok] obtain s1 where g: "generate_candidate env s = Inr s1"
    by blast
  note e = generate_candidate_effect[OF g]
  let ?s' = "s1\<lparr>log := log s1 @ [decision_row env s1 ''max_retries_reached'' []]\<rparr>"
  have d: "decide env s1 = Inr (?s', Break)"
    using e(1,4) two eq wr by (simp add: decide_with_name Let_def)
  with g have "loop_body env s = Inr (?s', Break)" by (simp add: loop_body_def)
  with eq have "negotiation_loop env s = Inr ?s'"
    by (intro negotiation_loop_unfold_break) simp_all
  moreover have "le_user_feedback (decision_row env s1 ''max_retries_reached'' []) = []"
    by (simp add: decision_row_def make_log_entry_def)
  ultimately show ?thesis
    using e eq by (intro that[of ?s']) simp_all
qed


lemma retry_iteration_ex:
  assumes "\<forall>n. env_create_retry_analysis_payload env n \<noteq> None \<and> env_save_retry_analysis env n"
    and "\<forall>e. env_log_writable env e"
    and "env_satisfaction env (retry_count s) = Two"
    and "retry_count s < max_retries"
  shows "\<exists>s'. negotiation_loop env s = negotiation_loop env s'
    \<and> retry_count s' = retry_count s + 1
    \<and> feedback_history s' = feedback_history s
           @ [collect_user_feedback (env_feedback_typed env (retry_count s))]
    \<and> calls s' = calls s @ [\<lparr>call_attempt = retry_count s + 1, call_history = feedback_history s,
            call_feedback = (if retry_count s = 0 then None
                             else Some (py_join '' | '' (feedback_history s)))\<rparr>]
    \<and> map le_user_action (log s') = map le_user_action (log s) @ [''retry'']
    \<and> map le_user_feedback (log s') = map le_user_feedback (log s)
           @ [collect_user_feedback (env_feedback_typed env (retry_count s))]"
  by (rule retry_iteration[OF assms]) blast

lemma last_iteration_ex:
  assumes "\<forall>n. env_create_retry_analysis_payload env n \<noteq> None \<and> env_save_retry_analysis env n"
    and "\<forall>e. env_log_writable env e"
    and "env_satisfaction env (retry_count s) = Two"
    and "retry_count s = max_retries"
  shows "\<exists>s'. negotiation_loop env s = Inr s'
    \<and> retry_count s' = retry_count s
    \<and> feedback_history s' = feedback_history s
    \<and> calls s' = calls s @ [\<lparr>call_attempt = retry_count s + 1, call_history = feedback_history s,
            call_feedback = (if retry_count s = 0 then None
                             else Some (py_join '' | '' (feedback_history s)))\<rparr>]
    \<and> map le_user_action (log s') = map le_user_action (log s) @ [''max_retries_reached'']
    \<and> map le_user_feedback (log s') = map le_user_feedback (log s) @ [[]]
    \<and> truthy (new_directory_name s')
    \<and> log s' \<noteq> [] \<and> le_generated_name (last (log s')) = or_empty (new_directory_name s')
    \<and> le_attempt_number (last (log s')) = max_retries + 1"
  by (rule last_iteration[OF assms]) blast

lemma collect_user_feedback_nonempty: "collect_user_feedback typed \<noteq> []"
  by (simp add: collect_user_feedback_def Let_def)

lemma all_retries_run:
  fixes env :: "'p env"
  assumes ok: "\<forall>n. env_create_retry_analysis_payload env n \<noteq> None \<and> env_save_retry_analysis env n"
    and wr: "\<forall>e. env_log_writable env e"
    and two: "\<forall>n \<le> 3. env_satisfaction env n = Two"
  shows "\<exists>s. negotiation_loop env (initial_state env) = Inr s
      \<and> retry_count s = 3
      \<and> feedback_history s = [collect_user_feedback (env_feedback_typed env 0),
                              collect_user_feedback (env_feedback_typed env 1),
                              collect_user_feedback (env_feedback_typed env 2)]
      \<and> map call_attempt (calls s) = [1, 2, 3, 4]
      \<and> map call_history (calls s) =
          [[],
           [collect_user_feedback (env_feedback_typed env 0)],
           [collect_user_feedback (env_feedback_typed env 0),
            collect_user_feedback (env_feedback_typed env 1)],
           [collect_user_feedback (env_feedback_typed env 0),
            collect_user_feedback (env_feedback_typed env 1),
            collect_user_feedback (env_feedback_typed env 2)]]
      \<and> map call_feedback (calls s) =
          [None,
           Some (collect_user_feedback (env_feedback_typed env 0)),
           Some (collect_user_feedback (env_feedback_typed env 0) @ '' | ''
                 @ collect_user_feedback (env_feedback_typed env 1)),
           Some (collect_user_feedback (env_feedback_typed env 0) @ '' | ''
                 @ collect_user_feedback (env_feedback_typed env 1) @ '' | ''
                 @ collect_user_feedback (env_feedback_typed env 2))]
      \<and> map le_user_action (log s) = [''retry'', ''retry'', ''retry'', ''max_retries_reached'']
      \<and> map le_user_feedback (log s) =
          [collect_user_feedback (env_feedback_typed env 0),
           collect_user_feedback (env_feedback_typed env 1),
           collect_user_feedback (env_feedback_typed env 2), []]
      \<and> truthy (new_directory_name s)
      \<and> le_generated_name (last (log s)) = or_empty (new_directory_name s)
      \<and> le_attempt_number (last (log s)) = 4"
proof -
  let ?f0 = "collect_user_feedback (env_feedback_typed env 0)"
  let ?f1 = "collect_user_feedback (env_feedback_typed env 1)"
  let ?f2 = "collect_user_feedback (env_feedback_typed env 2)"
  let ?s0 = "initial_state env"
  have t0: "env_satisfaction env 0 = Two" and t1: "env_satisfaction env 1 = Two"
    and t2: "env_satisfaction env 2 = Two" and t3: "env_satisfaction env 3 = Two"
    using two by simp_all
  have "env_satisfaction env (retry_count ?s0) = Two" "retry_count ?s0 < max_retries"
    using t0 by (simp_all add: initial_state_def max_retries_def)
  from retry_iteration_ex[OF ok wr this]
  obtain s1 where s1: "negotiation_loop env ?s0 = negotiation_loop env s1"
    "retry_count s1 = 1" "feedback_history s1 = [?f0]"
    "calls s1 = [\<lparr>call_attempt = 1, call_history = [], call_feedback = None\<rparr>]"
    "map le_user_action (log s1) = [''retry'']" "map le_user_feedback (log s1) = [?f0]"
    by (auto simp: initial_state_def)
  have "env_satisfaction env (retry_count s1) = Two" "retry_count s1 < max_retries"
    using t1 s1(2) by (simp_all add: max_retries_def)
  from retry_iteration_ex[OF ok wr this]
  obtain s2 where s2: "negotiation_loop env s1 = negotiation_loop env s2"
    "retry_count s2 = 2" "feedback_history s2 = [?f0, ?f1]"
    "calls s2 = [\<lparr>call_attempt = 1, call_history = [], call_feedback = None\<rparr>,
                 \<lparr>call_attempt = 2, call_history = [?f0], call_feedback = Some ?f0\<rparr>]"
    "map le_user_action (log s2) = [''retry'', ''retry'']"
    "map le_user_feedback (log s2) = [?f0, ?f1]"
    using s1 by auto
  have "env_satisfaction env (retry_count s2) = Two" "retry_count s2 < max_retries"
    using t2 s2(2) by (simp_all add: max_retries_def)
  from retry_iteration_ex[OF ok wr this]
  obtain s3 where s3: "negotiation_loop env s2 = negotiation_loop env s3"
    "retry_count s3 = 3" "feedback_history s3 = [?f0, ?f1, ?f2]"
    "calls s3 = [\<lparr>call_attempt = 1, call_history = [], call_feedback = None\<rparr>,
                 \<lparr>call_attempt = 2, call_history = [?f0], call_feedback = Some ?f0\<rparr>,
                 \<lparr>call_attempt = 3, call_history = [?f0, ?f1],
                    call_feedback = Some (?f0 @ '' | '' @ ?f1)\<rparr>]"
    "map le_user_action (log s3) = [''retry'', ''retry'', ''retry'']"
    "map le_user_feedback (log s3) = [?f0, ?f1, ?f2]"
    using s2 by auto
  have "env_satisfaction env (retry_count s3) = Two" "retry_count s3 = max_retries"
    using t3 s3(2) by (simp_all add: max_retries_def)
  from last_iteration_ex[OF ok wr this]
  obtain s4 where s4: "negotiation_loop env s3 = Inr s4"
    "retry_count s4 = 3" "feedback_history s4 = [?f0, ?f1, ?f2]"
    "calls s4 = [\<lparr>call_attempt = 1, call_history = [], call_feedback = None\<rparr>,
                 \<lparr>call_attempt = 2, call_history = [?f0], call_feedback = Some ?f0\<rparr>,
                 \<lparr>call_attempt = 3, call_history = [?f0, ?f1],
                    call_feedback = Some (?f0 @ '' | '' @ ?f1)\<rparr>,
                 \<lparr>call_attempt = 4, call_history = [?f0, ?f1, ?f2],
                    call_feedback = Some (?f0 @ '' | '' @ ?f1 @ '' | '' @ ?f2)\<rparr>]"
    "map le_user_action (log s4) = [''retry'', ''retry'', ''retry'', ''max_retries_reached'']"
    "map le_user_feedback (log s4) = [?f0, ?f1, ?f2, []]"
    "truthy (new_directory_name s4)"
    "le_generated_name (last (log s4)) = or_empty (new_directory_name s4)"
    "le_attempt_number (last (log s4)) = 4"
    using s3 by (auto simp: max_retries_def)
  from s1(1) s2(1) s3(1) s4(1) have "negotiation_loop env ?s0 = Inr s4" by simp
  with s4 show ?thesis by (intro exI[of _ s4]) simp
qed

lemma finished_from_decision:
  assumes "reachable env Finished s"
  shows "\<exists>g. reachable env Generated g \<and> decide env g = Inr (s, Break)"
  using assms
proof (cases rule: reachable.cases)
  case (leave s1)
  then show ?thesis by blast
next
  case exhausted
  with reachable_invariant[OF exhausted(1)] show ?thesis by (simp add: loop_invariant_def)
qed

text \<open>
  Claim C1.  In every reachable state of the loop the number of the current attempt,
  \<open>retry_count + 1\<close>, is at most \<open>max_retries + 1 = 4\<close>, and so is the number of calls of
  the generator made so far.  A decision continues the loop only from a state with
  \<open>retry_count < max_retries\<close>, and then increments the count by one; at the bound a
  request for another name ends the loop with the current candidate kept and the row
  \<open>max_retries_reached\<close> (or, when the log cannot be written, with the logger's error).
\<close>

theorem attempts_never_exceed_limit:
  assumes "reachable env pt s"
  shows "retry_count s + 1 \<le> max_retries + 1 \<and> max_retries = 3
       \<and> length (calls s) \<le> max_retries + 1
       \<and> (\<forall>c \<in> set (calls s). call_attempt c \<le> max_retries + 1)
       \<and> (pt = Generated \<longrightarrow>
            (\<forall>s'. decide env s = Inr (s', Continue) \<longrightarrow>
                   retry_count s < max_retries \<and> retry_count s' = retry_count s + 1)
          \<and> (retry_count s = max_retries \<and> env_satisfaction env (retry_count s) = Two \<longrightarrow>
               decide env s =
                 (if env_log_writable env (decision_row env s ''max_retries_reached'' [])
                  then Inr (s\<lparr>log := log s @ [decision_row env s ''max_retries_reached'' []]\<rparr>, Break)
                  else Inl LogWriteError)))"
proof -
  note inv = reachable_invariant[OF assms, unfolded loop_invariant_def]
  have a: "retry_count s + 1 \<le> max_retries + 1" using inv by simp
  have m: "max_retries = 3" by (simp add: max_retries_def)
  have b: "length (calls s) \<le> max_retries + 1" using inv by (simp split: if_splits)
  have c: "\<forall>c \<in> set (calls s). call_attempt c \<le> max_retries + 1" using inv by blast
  have de: "pt = Generated \<longrightarrow>
            (\<forall>s'. decide env s = Inr (s', Continue) \<longrightarrow>
                   retry_count s < max_retries \<and> retry_count s' = retry_count s + 1)
          \<and> (retry_count s = max_retries \<and> env_satisfaction env (retry_count s) = Two \<longrightarrow>
               decide env s =
                 (if env_log_writable env (decision_row env s ''max_retries_reached'' [])
                  then Inr (s\<lparr>log := log s @ [decision_row env s ''max_retries_reached'' []]\<rparr>, Break)
                  else Inl LogWriteError))"
  proof (intro impI conjI allI)
    fix s'
    assume "pt = Generated" and dc: "decide env s = Inr (s', Continue)"
    with inv have t: "truthy (new_directory_name s)" by simp
    from decide_Continue(1)[OF t dc] show "retry_count s < max_retries" .
    from decide_Continue(2)[OF t dc] show "retry_count s' = retry_count s + 1" .
  next
    assume "pt = Generated"
      and bound: "retry_count s = max_retries \<and> env_satisfaction env (retry_count s) = Two"
    with inv have t: "truthy (new_directory_name s)" by simp
    from bound show "decide env s =
                 (if env_log_writable env (decision_row env s ''max_retries_reached'' [])
                  then Inr (s\<lparr>log := log s @ [decision_row env s ''max_retries_reached'' []]\<rparr>, Break)
                  else Inl LogWriteError)"
      by (auto simp: decide_with_name[OF t])
  qed
  show ?thesis
    by (intro conjI) (rule a, rule m, rule b, rule c, rule de)
qed

lemma scenario_env_run:
  "\<exists>s. negotiation_loop scenario_env (initial_state scenario_env) = Inr s
      \<and> retry_count s = 3
      \<and> feedback_history s = [''too vague'', ''too long'', ''wrong topic'']
      \<and> map call_attempt (calls s) = [1, 2, 3, 4]
      \<and> map call_history (calls s) =
          [[], [''too vague''], [''too vague'', ''too long''],
           [''too vague'', ''too long'', ''wrong topic'']]
      \<and> map call_feedback (calls s) =
          [None, Some ''too vague'', Some ''too vague | too long'',
           Some ''too vague | too long | wrong topic'']
      \<and> map le_user_action (log s) = [''retry'', ''retry'', ''retry'', ''max_retries_reached'']
      \<and> truthy (new_directory_name s)
      \<and> le_generated_name (last (log s)) = or_empty (new_directory_name s)"
proof -
  have f: "collect_user_feedback (env_feedback_typed scenario_env 0) = ''too vague''"
    "collect_user_feedback (env_feedback_typed scenario_env 1) = ''too long''"
    "collect_user_feedback (env_feedback_typed scenario_env 2) = ''wrong topic''"
    by (simp_all add: scenario_env_def collect_user_feedback_def py_strip_def py_isspace_def
        code_point_def)
  have "\<forall>n. env_create_retry_analysis_payload scenario_env n \<noteq> None
          \<and> env_save_retry_analysis scenario_env n"
    "\<forall>e. env_log_writable scenario_env e" "\<forall>n \<le> 3. env_satisfaction scenario_env n = Two"
    by (simp_all add: scenario_env_def)
  from all_retries_run[OF this]
  have "\<exists>s. negotiation_loop scenario_env (initial_state scenario_env) = Inr s
      \<and> retry_count s = 3
      \<and> feedback_history s = [''too vague'', ''too long'', ''wrong topic'']
      \<and> map call_attempt (calls s) = [1, 2, 3, 4]
      \<and> map call_history (calls s) =
          [[], [''too vague''], [''too vague'', ''too long''],
           [''too vague'', ''too long'', ''wrong topic'']]
      \<and> map call_feedback (calls s) =
          [None, Some ''too vague'', Some (''too vague'' @ '' | '' @ ''too long''),
           Some (''too vague'' @ '' | '' @ ''too long'' @ '' | '' @ ''wrong topic'')]
      \<and> map le_user_action (log s) = [''retry'', ''retry'', ''retry'', ''max_retries_reached'']
      \<and> map le_user_feedback (log s) = [''too vague'', ''too long'', ''wrong topic'', []]
      \<and> truthy (new_directory_name s)
      \<and> le_generated_name (last (log s)) = or_empty (new_directory_name s)
      \<and> le_attempt_number (last (log s)) = 4"
    unfolding f .
  then obtain s where "negotiation_loop scenario_env (initial_state scenario_env) = Inr s
      \<and> retry_count s = 3
      \<and> feedback_history s = [''too vague'', ''too long'', ''wrong topic'']
      \<and> map call_attempt (calls s) = [1, 2, 3, 4]
      \<and> map call_history (calls s) =
          [[], [''too vague''], [''too vague'', ''too long''],
           [''too vague'', ''too long'', ''wrong topic'']]
      \<and> map call_feedback (calls s) =
          [None, Some ''too vague'', Some (''too vague'' @ '' | '' @ ''too long''),
           Some (''too vague'' @ '' | '' @ ''too long'' @ '' | '' @ ''wrong topic'')]
      \<and> map le_user_action (log s) = [''retry'', ''retry'', ''retry'', ''max_retries_reached'']
      \<and> map le_user_feedback (log s) = [''too vague'', ''too long'', ''wrong topic'', []]
      \<and> truthy (new_directory_name s)
      \<and> le_generated_name (last (log s)) = or_empty (new_directory_name s)
      \<and> le_attempt_number (last (log s)) = 4" ..
  then show ?thesis
    by (intro exI[of _ s]) simp
qed

theorem attempts_never_exceed_limit_witness:
  "\<exists>g s. reachable scenario_env Generated g
     \<and> retry_count g = max_retries \<and> env_satisfaction scenario_env (retry_count g) = Two
     \<and> env_log_writable scenario_env (decision_row scenario_env g ''max_retries_reached'' [])
     \<and> decide scenario_env g = Inr (s, Break)
     \<and> s = g\<lparr>log := log g @ [decision_row scenario_env g ''max_retries_reached'' []]\<rparr>
     \<and> negotiation_loop scenario_env (initial_state scenario_env) = Inr s
     \<and> retry_count g + 1 \<le> max_retries + 1 \<and> length (calls g) \<le> max_retries + 1"
proof -
  from scenario_env_run obtain s
    where run: "negotiation_loop scenario_env (initial_state scenario_env) = Inr s"
      and rc: "retry_count s = 3"
    by blast
  from finished_from_decision[OF negotiation_loop_finished[OF run]]
  obtain g where g: "reachable scenario_env Generated g" and d: "decide scenario_env g = Inr (s, Break)"
    by blast
  have t: "truthy (new_directory_name g)"
    using reachable_invariant[OF g] by (simp add: loop_invariant_def)
  have rg: "retry_count g = max_retries"
    using decide_Break(1)[OF t d] rc by (simp add: max_retries_def)
  have two: "env_satisfaction scenario_env (retry_count g) = Two"
    and wr: "env_log_writable scenario_env (decision_row scenario_env g ''max_retries_reached'' [])"
    by (simp_all add: scenario_env_def)
  note main = attempts_never_exceed_limit[OF g]
  note bound = main[THEN conjunct2, THEN conjunct2, THEN conjunct2, THEN conjunct2, THEN mp,
      OF refl, THEN conjunct2, THEN mp, OF conjI[OF rg two]]
  have d': "decide scenario_env g
      = Inr (g\<lparr>log := log g @ [decision_row scenario_env g ''max_retries_reached'' []]\<rparr>, Break)"
    using bound wr by (simp only: if_True)
  from d d' have s: "s = g\<lparr>log := log g @ [decision_row scenario_env g ''max_retries_reached'' []]\<rparr>"
    by (simp only: sum.inject prod.inject)
  have n1: "retry_count g + 1 \<le> max_retries + 1" by (rule main[THEN conjunct1])
  have n2: "length (calls g) \<le> max_retries + 1"
    by (rule main[THEN conjunct2, THEN conjunct2, THEN conjunct1])
  show ?thesis
    by (rule exI[of _ g], rule exI[of _ s], intro conjI)
      (rule g, rule rg, rule two, rule wr, rule d, rule s, rule run, rule n1, rule n2)
qed


lemma fst_generate_and_path:
  "fst (generate_directory_name_and_path_with_feedback client payload root src feedback now)
     = generate_directory_name_with_feedback client payload feedback now"
  using generate_directory_name_with_feedback_nonempty[of client payload feedback now]
  by (auto simp: generate_directory_name_and_path_with_feedback_def)

lemma generate_candidate_name:
  assumes "generate_candidate env s = Inr s1"
  shows "new_directory_name s1
           = name_from_history env (retry_count s) (current_analysis_data s1) (feedback_history s)"
    and "retry_count s = 0 \<Longrightarrow> current_analysis_data s1 = current_analysis_data s"
    and "retry_count s \<noteq> 0 \<Longrightarrow>
           env_create_retry_analysis_payload env (retry_count s) = Some (current_analysis_data s1)"
proof -
  show "retry_count s = 0 \<Longrightarrow> current_analysis_data s1 = current_analysis_data s"
    using assms
    by (auto simp: generate_candidate_def Let_def split: if_splits option.splits prod.splits)
  show "retry_count s \<noteq> 0 \<Longrightarrow>
           env_create_retry_analysis_payload env (retry_count s) = Some (current_analysis_data s1)"
    using assms
    by (auto simp: generate_candidate_def Let_def split: if_splits option.splits prod.splits)
  show "new_directory_name s1
           = name_from_history env (retry_count s) (current_analysis_data s1) (feedback_history s)"
  proof (cases "truthy (env_data_home_root env)")
    case True
    then show ?thesis
      using assms
      by (auto simp: generate_candidate_def Let_def generate_directory_name_and_path_def
          name_from_history_def fst_generate_and_path
          split: if_splits option.splits prod.splits dest!: arg_cong[where f=fst])
  next
    case False
    then show ?thesis
      using assms
      by (auto simp: generate_candidate_def Let_def name_from_history_def
          split: if_splits option.splits)
  qed
qed

lemma retry_iteration_names:
  assumes ok: "\<forall>n. env_create_retry_analysis_payload env n = Some (analysis n)
                   \<and> env_save_retry_analysis env n"
    and wr: "\<forall>e. env_log_writable env e"
    and two: "env_satisfaction env (retry_count s) = Two"
    and lt: "retry_count s < max_retries"
  shows "\<exists>s'. negotiation_loop env s = negotiation_loop env s'
    \<and> retry_count s' = retry_count s + 1
    \<and> feedback_history s' = feedback_history s
           @ [collect_user_feedback (env_feedback_typed env (retry_count s))]
    \<and> map le_generated_name (log s') = map le_generated_name (log s)
           @ [or_empty (name_from_history env (retry_count s)
                (if retry_count s = 0 then current_analysis_data s else analysis (retry_count s))
                (feedback_history s))]
    \<and> map le_attempt_number (log s') = map le_attempt_number (log s) @ [retry_count s + 1]"
proof -
  from ok have ok': "\<forall>n. env_create_retry_analysis_payload env n \<noteq> None
                        \<and> env_save_retry_analysis env n"
    by simp
  from generate_candidate_succeeds[OF ok'] obtain s1 where g: "generate_candidate env s = Inr s1"
    by blast
  note e = generate_candidate_effect[OF g]
  note nm = generate_candidate_name[OF g]
  let ?f = "collect_user_feedback (env_feedback_typed env (retry_count s))"
  let ?s' = "s1\<lparr>feedback_history := feedback_history s1 @ [?f],
                log := log s1 @ [decision_row env s1 ''retry'' ?f],
                retry_count := retry_count s1 + 1\<rparr>"
  have d: "decide env s1 = Inr (?s', Continue)"
    using e(1,4) two lt wr by (simp add: decide_with_name Let_def)
  with g have "loop_body env s = Inr (?s', Continue)" by (simp add: loop_body_def)
  with lt have l: "negotiation_loop env s = negotiation_loop env ?s'"
    by (intro negotiation_loop_unfold_retry) simp_all
  have a: "current_analysis_data s1
             = (if retry_count s = 0 then current_analysis_data s else analysis (retry_count s))"
    using nm(2,3) ok by (cases "retry_count s = 0") simp_all
  have n: "le_generated_name (decision_row env s1 ''retry'' ?f)
             = or_empty (name_from_history env (retry_count s)
                (if retry_count s = 0 then current_analysis_data s else analysis (retry_count s))
                (feedback_history s))"
    using nm(1) a by simp
  have m: "le_attempt_number (decision_row env s1 ''retry'' ?f) = retry_count s + 1"
    using e(1) by simp
  show ?thesis
    using l e(1,2,3) n m by (intro exI[of _ ?s']) simp
qed

lemma last_iteration_names:
  assumes ok: "\<forall>n. env_create_retry_analysis_payload env n = Some (analysis n)
                   \<and> env_save_retry_analysis env n"
    and wr: "\<forall>e. env_log_writable env e"
    and two: "env_satisfaction env (retry_count s) = Two"
    and eq: "retry_count s = max_retries"
  shows "\<exists>s'. negotiation_loop env s = Inr s'
    \<and> new_directory_name s' = name_from_history env max_retries (analysis max_retries)
                                  (feedback_history s)
    \<and> map le_generated_name (log s') = map le_generated_name (log s)
           @ [or_empty (name_from_history env max_retries (analysis max_retries)
                          (feedback_history s))]
    \<and> map le_attempt_number (log s') = map le_attempt_number (log s) @ [max_retries + 1]"
proof -
  from ok have ok': "\<forall>n. env_create_retry_analysis_payload env n \<noteq> None
                        \<and> env_save_retry_analysis env n"
    by simp
  from generate_candidate_succeeds[OF ok'] obtain s1 where g: "generate_candidate env s = Inr s1"
    by blast
  note e = generate_candidate_effect[OF g]
  note nm = generate_candidate_name[OF g]
  let ?s' = "s1\<lparr>log := log s1 @ [decision_row env s1 ''max_retries_reached'' []]\<rparr>"
  have d: "decide env s1 = Inr (?s', Break)"
    using e(1,4) two eq wr by (simp add: decide_with_name Let_def)
  with g have "loop_body env s = Inr (?s', Break)" by (simp add: loop_body_def)
  with eq have l: "negotiation_loop env s = Inr ?s'"
    by (intro negotiation_loop_unfold_break) simp_all
  have "retry_count s \<noteq> 0" using eq by (simp add: max_retries_def)
  with nm(3) ok have a: "current_analysis_data s1 = analysis max_retries"
    using eq by simp
  have n: "new_directory_name s1 = name_from_history env max_retries (analysis max_retries)
                                  (feedback_history s)"
    using nm(1) a eq by simp
  have m: "le_attempt_number (decision_row env s1 ''max_retries_reached'' []) = max_retries + 1"
    using e(1) eq by simp
  show ?thesis
    using l e(3) n m by (intro exI[of _ ?s']) simp
qed

lemma all_retries_names:
  fixes env :: "'p env"
  assumes ok: "\<forall>n. env_create_retry_analysis_payload env n = Some (analysis n)
                   \<and> env_save_retry_analysis env n"
    and wr: "\<forall>e. env_log_writable env e"
    and two: "\<forall>n \<le> 3. env_satisfaction env n = Two"
  shows "\<exists>s. negotiation_loop env (initial_state env) = Inr s
      \<and> new_directory_name s = name_from_history env 3 (analysis 3)
          [collect_user_feedback (env_feedback_typed env 0),
           collect_user_feedback (env_feedback_typed env 1),
           collect_user_feedback (env_feedback_typed env 2)]
      \<and> map le_generated_name (log s) =
          [or_empty (name_from_history env 0 (env_analysis_data env) []),
           or_empty (name_from_history env 1 (analysis 1)
             [collect_user_feedback (env_feedback_typed env 0)]),
           or_empty (name_from_history env 2 (analysis 2)
             [collect_user_feedback (env_feedback_typed env 0),
              collect_user_feedback (env_feedback_typed env 1)]),
           or_empty (name_from_history env 3 (analysis 3)
             [collect_user_feedback (env_feedback_typed env 0),
              collect_user_feedback (env_feedback_typed env 1),
              collect_user_feedback (env_feedback_typed env 2)])]
      \<and> map le_attempt_number (log s) = [1, 2, 3, 4]"
proof -
  let ?f0 = "collect_user_feedback (env_feedback_typed env 0)"
  let ?f1 = "collect_user_feedback (env_feedback_typed env 1)"
  let ?f2 = "collect_user_feedback (env_feedback_typed env 2)"
  let ?n0 = "or_empty (name_from_history env 0 (env_analysis_data env) [])"
  let ?n1 = "or_empty (name_from_history env 1 (analysis 1) [?f0])"
  let ?n2 = "or_empty (name_from_history env 2 (analysis 2) [?f0, ?f1])"
  let ?n3 = "or_empty (name_from_history env 3 (analysis 3) [?f0, ?f1, ?f2])"
  let ?s0 = "initial_state env"
  have t0: "env_satisfaction env 0 = Two" and t1: "env_satisfaction env 1 = Two"
    and t2: "env_satisfaction env 2 = Two" and t3: "env_satisfaction env 3 = Two"
    using two by simp_all
  have "env_satisfaction env (retry_count ?s0) = Two" "retry_count ?s0 < max_retries"
    using t0 by (simp_all add: initial_state_def max_retries_def)
  from retry_iteration_names[OF ok wr this]
  obtain s1 where s1: "negotiation_loop env ?s0 = negotiation_loop env s1"
    "retry_count s1 = 1" "feedback_history s1 = [?f0]"
    "map le_generated_name (log s1) = [?n0]" "map le_attempt_number (log s1) = [1]"
    by (auto simp: initial_state_def)
  have "env_satisfaction env (retry_count s1) = Two" "retry_count s1 < max_retries"
    using t1 s1(2) by (simp_all add: max_retries_def)
  from retry_iteration_names[OF ok wr this]
  obtain s2 where s2: "negotiation_loop env s1 = negotiation_loop env s2"
    "retry_count s2 = 2" "feedback_history s2 = [?f0, ?f1]"
    "map le_generated_name (log s2) = [?n0, ?n1]" "map le_attempt_number (log s2) = [1, 2]"
    using s1 by auto
  have "env_satisfaction env (retry_count s2) = Two" "retry_count s2 < max_retries"
    using t2 s2(2) by (simp_all add: max_retries_def)
  from retry_iteration_names[OF ok wr this]
  obtain s3 where s3: "negotiation_loop env s2 = negotiation_loop env s3"
    "retry_count s3 = 3" "feedback_history s3 = [?f0, ?f1, ?f2]"
    "map le_generated_name (log s3) = [?n0, ?n1, ?n2]"
    "map le_attempt_number (log s3) = [1, 2, 3]"
    using s2 by auto
  have "env_satisfaction env (retry_count s3) = Two" "retry_count s3 = max_retries"
    using t3 s3(2) by (simp_all add: max_retries_def)
  from last_iteration_names[OF ok wr this]
  obtain s4 where s4: "negotiation_loop env s3 = Inr s4"
    "new_directory_name s4 = name_from_history env 3 (analysis 3) [?f0, ?f1, ?f2]"
    "map le_generated_name (log s4) = [?n0, ?n1, ?n2, ?n3]"
    "map le_attempt_number (log s4) = [1, 2, 3, 4]"
    using s3 by (auto simp: max_retries_def)
  from s1(1) s2(1) s3(1) s4(1) have "negotiation_loop env ?s0 = Inr s4" by simp
  with s4 show ?thesis by (intro exI[of _ s4]) simp
qed

lemma listening_env_feedback:
  "collect_user_feedback (env_feedback_typed listening_env 0) = ''too vague''"
  "collect_user_feedback (env_feedback_typed listening_env 1) = ''too long''"
  "collect_user_feedback (env_feedback_typed listening_env 2) = ''wrong topic''"
  by (simp_all add: listening_env_def scenario_env_def collect_user_feedback_def py_strip_def
      py_isspace_def code_point_def)

lemma listening_env_premises:
  "\<forall>n. env_create_retry_analysis_payload listening_env n = Some ((\<lambda>n. ()) n)
        \<and> env_save_retry_analysis listening_env n"
  "\<forall>e. env_log_writable listening_env e"
  "\<forall>n \<le> 3. env_satisfaction listening_env n = Two"
  by (simp_all add: listening_env_def scenario_env_def)

lemma listening_env_reply:
  "generate_directory_name_with_feedback (the_client listening_env n) () feedback
     (env_now listening_env n)
   = Some (case reply_by_feedback (create_naming_prompt_with_feedback () feedback) of
             Reply t \<Rightarrow> t | Raised \<Rightarrow> [])"
proof -
  have v: "validate_directory_name (py_strip ''firstDraft'')"
    "validate_directory_name (py_strip ''budgetReview'')"
    "validate_directory_name (py_strip ''budget'')"
    "validate_directory_name (py_strip ''travelNotes'')"
    "validate_directory_name (py_strip ''otherName'')"
    by (simp_all add: validate_directory_name_def re_match_camel_def py_strip_def py_isspace_def
        re_dollar_def is_alnum_class_def is_lower_az_def is_upper_AZ_def is_digit_09_def
        code_point_def newline_def)
  have s: "py_strip ''firstDraft'' = ''firstDraft''" "py_strip ''budgetReview'' = ''budgetReview''"
    "py_strip ''budget'' = ''budget''" "py_strip ''travelNotes'' = ''travelNotes''"
    "py_strip ''otherName'' = ''otherName''"
    by (simp_all add: py_strip_def py_isspace_def code_point_def)
  show ?thesis
    using v
    by (simp add: s Let_def generate_directory_name_with_feedback_def the_client_def
        listening_env_def scenario_env_def reply_by_feedback_def
        create_naming_prompt_with_feedback_def split: option.split)
qed

lemma listening_env_names:
  "generate_directory_name_with_feedback (the_client listening_env 0) () None
     (env_now listening_env 0) = Some ''firstDraft''"
  "generate_directory_name_with_feedback (the_client listening_env 1) () (Some ''too vague'')
     (env_now listening_env 1) = Some ''budgetReview''"
  "generate_directory_name_with_feedback (the_client listening_env 2) ()
     (Some ''too vague | too long'') (env_now listening_env 2) = Some ''budget''"
  "generate_directory_name_with_feedback (the_client listening_env n) ()
     (Some ''too vague | too long | wrong topic'') (env_now listening_env n) = Some ''travelNotes''"
  unfolding listening_env_reply
  by (simp_all add: reply_by_feedback_def create_naming_prompt_with_feedback_def)

lemma listening_env_data_home: "truthy (env_data_home_root listening_env)"
  by (simp add: listening_env_def scenario_env_def truthy_def)

lemma py_join_bar:
  "py_join '' | '' [a] = a" "py_join '' | '' [a, b] = a @ '' | '' @ b"
  "py_join '' | '' [a, b, c] = a @ '' | '' @ b @ '' | '' @ c"
  by simp_all

text \<open>
  Claim C2 (as amended).  When the user asks for another name at each of the four prompts, with a
  line of feedback each time, the loop makes four generator calls.  Attempt \<open>k + 1\<close> is
  made with the \<open>k\<close> feedback lines given so far: the candidate it logs is what
  \<open>generate_directory_name_with_feedback\<close> returns for the retry analysis of that attempt
  and those lines joined by \<open>" | "\<close>, so the fourth candidate comes from all three lines and
  the third from two.  The fourth prompt's answer is not followed by a retry: the loop ends
  with \<open>max_retries_reached\<close> logged on attempt 4 and the fourth candidate as its result.
\<close>

theorem three_retries_then_forced_acceptance:
  fixes env :: "'p env"
  assumes "\<forall>n. env_create_retry_analysis_payload env n = Some (analysis n)
               \<and> env_save_retry_analysis env n"
    and "\<forall>e. env_log_writable env e"
    and "\<forall>n \<le> 3. env_satisfaction env n = Two"
  shows "\<exists>s. negotiation_loop env (initial_state env) = Inr s
      \<and> retry_count s = 3
      \<and> feedback_history s = [collect_user_feedback (env_feedback_typed env 0),
                              collect_user_feedback (env_feedback_typed env 1),
                              collect_user_feedback (env_feedback_typed env 2)]
      \<and> map le_attempt_number (log s) = [1, 2, 3, 4]
      \<and> map le_generated_name (log s) =
          [or_empty (if truthy (env_data_home_root env)
                     then generate_directory_name_with_feedback (the_client env 0)
                            (env_analysis_data env) None (env_now env 0)
                     else generate_directory_name (the_client env 0) (env_analysis_data env)
                            (env_now env 0)),
           or_empty (generate_directory_name_with_feedback (the_client env 1) (analysis 1)
             (Some (collect_user_feedback (env_feedback_typed env 0))) (env_now env 1)),
           or_empty (generate_directory_name_with_feedback (the_client env 2) (analysis 2)
             (Some (collect_user_feedback (env_feedback_typed env 0) @ '' | ''
                    @ collect_user_feedback (env_feedback_typed env 1))) (env_now env 2)),
           or_empty (generate_directory_name_with_feedback (the_client env 3) (analysis 3)
             (Some (collect_user_feedback (env_feedback_typed env 0) @ '' | ''
                    @ collect_user_feedback (env_feedback_typed env 1) @ '' | ''
                    @ collect_user_feedback (env_feedback_typed env 2))) (env_now env 3))]
      \<and> new_directory_name s =
          generate_directory_name_with_feedback (the_client env 3) (analysis 3)
            (Some (collect_user_feedback (env_feedback_typed env 0) @ '' | ''
                   @ collect_user_feedback (env_feedback_typed env 1) @ '' | ''
                   @ collect_user_feedback (env_feedback_typed env 2))) (env_now env 3)
      \<and> map call_attempt (calls s) = [1, 2, 3, 4]
      \<and> map call_history (calls s) =
          [[],
           [collect_user_feedback (env_feedback_typed env 0)],
           [collect_user_feedback (env_feedback_typed env 0),
            collect_user_feedback (env_feedback_typed env 1)],
           [collect_user_feedback (env_feedback_typed env 0),
            collect_user_feedback (env_feedback_typed env 1),
            collect_user_feedback (env_feedback_typed env 2)]]
      \<and> map call_feedback (calls s) =
          [None,
           Some (collect_user_feedback (env_feedback_typed env 0)),
           Some (collect_user_feedback (env_feedback_typed env 0) @ '' | ''
                 @ collect_user_feedback (env_feedback_typed env 1)),
           Some (collect_user_feedback (env_feedback_typed env 0) @ '' | ''
                 @ collect_user_feedback (env_feedback_typed env 1) @ '' | ''
                 @ collect_user_feedback (env_feedback_typed env 2))]
      \<and> map le_user_action (log s) = [''retry'', ''retry'', ''retry'', ''max_retries_reached'']
      \<and> map le_user_feedback (log s) =
          [collect_user_feedback (env_feedback_typed env 0),
           collect_user_feedback (env_feedback_typed env 1),
           collect_user_feedback (env_feedback_typed env 2), []]
      \<and> truthy (new_directory_name s)
      \<and> le_generated_name (last (log s)) = or_empty (new_directory_name s)
      \<and> le_attempt_number (last (log s)) = 4"
proof -
  from assms(1) have ok': "\<forall>n. env_create_retry_analysis_payload env n \<noteq> None
                        \<and> env_save_retry_analysis env n"
    by simp
  from all_retries_run[OF ok' assms(2,3)]
  obtain s where s: "negotiation_loop env (initial_state env) = Inr s"
    "retry_count s = 3"
    "feedback_history s = [collect_user_feedback (env_feedback_typed env 0),
                              collect_user_feedback (env_feedback_typed env 1),
                              collect_user_feedback (env_feedback_typed env 2)]"
    "map call_attempt (calls s) = [1, 2, 3, 4]"
    "map call_history (calls s) =
          [[],
           [collect_user_feedback (env_feedback_typed env 0)],
           [collect_user_feedback (env_feedback_typed env 0),
            collect_user_feedback (env_feedback_typed env 1)],
           [collect_user_feedback (env_feedback_typed env 0),
            collect_user_feedback (env_feedback_typed env 1),
            collect_user_feedback (env_feedback_typed env 2)]]"
    "map call_feedback (calls s) =
          [None,
           Some (collect_user_feedback (env_feedback_typed env 0)),
           Some (collect_user_feedback (env_feedback_typed env 0) @ '' | ''
                 @ collect_user_feedback (env_feedback_typed env 1)),
           Some (collect_user_feedback (env_feedback_typed env 0) @ '' | ''
                 @ collect_user_feedback (env_feedback_typed env 1) @ '' | ''
                 @ collect_user_feedback (env_feedback_typed env 2))]"
    "map le_user_action (log s) = [''retry'', ''retry'', ''retry'', ''max_retries_reached'']"
    "map le_user_feedback (log s) =
          [collect_user_feedback (env_feedback_typed env 0),
           collect_user_feedback (env_feedback_typed env 1),
           collect_user_feedback (env_feedback_typed env 2), []]"
    "truthy (new_directory_name s)"
    "le_generated_name (last (log s)) = or_empty (new_directory_name s)"
    "le_attempt_number (last (log s)) = 4"
    by (elim exE conjE)
  from all_retries_names[OF assms]
  obtain s' where s': "negotiation_loop env (initial_state env) = Inr s'"
    and n: "new_directory_name s' = name_from_history env 3 (analysis 3)
          [collect_user_feedback (env_feedback_typed env 0),
           collect_user_feedback (env_feedback_typed env 1),
           collect_user_feedback (env_feedback_typed env 2)]"
      "map le_generated_name (log s') =
          [or_empty (name_from_history env 0 (env_analysis_data env) []),
           or_empty (name_from_history env 1 (analysis 1)
             [collect_user_feedback (env_feedback_typed env 0)]),
           or_empty (name_from_history env 2 (analysis 2)
             [collect_user_feedback (env_feedback_typed env 0),
              collect_user_feedback (env_feedback_typed env 1)]),
           or_empty (name_from_history env 3 (analysis 3)
             [collect_user_feedback (env_feedback_typed env 0),
              collect_user_feedback (env_feedback_typed env 1),
              collect_user_feedback (env_feedback_typed env 2)])]"
      "map le_attempt_number (log s') = [1, 2, 3, 4]"
    by (elim exE conjE)
  from s(1) s' have e: "s' = s" by simp
  note n' = n[unfolded e name_from_history_def py_join_bar]
  have n1: "new_directory_name s =
          generate_directory_name_with_feedback (the_client env 3) (analysis 3)
            (Some (collect_user_feedback (env_feedback_typed env 0) @ '' | ''
                   @ collect_user_feedback (env_feedback_typed env 1) @ '' | ''
                   @ collect_user_feedback (env_feedback_typed env 2))) (env_now env 3)"
    using n'(1) by simp
  have n2: "map le_generated_name (log s) =
          [or_empty (if truthy (env_data_home_root env)
                     then generate_directory_name_with_feedback (the_client env 0)
                            (env_analysis_data env) None (env_now env 0)
                     else generate_directory_name (the_client env 0) (env_analysis_data env)
                            (env_now env 0)),
           or_empty (generate_directory_name_with_feedback (the_client env 1) (analysis 1)
             (Some (collect_user_feedback (env_feedback_typed env 0))) (env_now env 1)),
           or_empty (generate_directory_name_with_feedback (the_client env 2) (analysis 2)
             (Some (collect_user_feedback (env_feedback_typed env 0) @ '' | ''
                    @ collect_user_feedback (env_feedback_typed env 1))) (env_now env 2)),
           or_empty (generate_directory_name_with_feedback (the_client env 3) (analysis 3)
             (Some (collect_user_feedback (env_feedback_typed env 0) @ '' | ''
                    @ collect_user_feedback (env_feedback_typed env 1) @ '' | ''
                    @ collect_user_feedback (env_feedback_typed env 2))) (env_now env 3))]"
    using n'(2) by simp
  show ?thesis
    by (rule exI[of _ s], intro conjI)
      (rule s(1), rule s(2), rule s(3), rule n'(3), rule n2, rule n1, rule s(4), rule s(5),
        rule s(6), rule s(7), rule s(8), rule s(9), rule s(10), rule s(11))
qed

theorem three_retries_then_forced_acceptance_witness:
  "(\<forall>n. env_create_retry_analysis_payload listening_env n = Some ()
          \<and> env_save_retry_analysis listening_env n)
   \<and> (\<forall>e. env_log_writable listening_env e)
   \<and> env_satisfaction listening_env 0 = Two \<and> env_satisfaction listening_env 1 = Two
   \<and> env_satisfaction listening_env 2 = Two \<and> env_satisfaction listening_env 3 = Two
   \<and> (\<exists>s. negotiation_loop listening_env (initial_state listening_env) = Inr s
        \<and> retry_count s = 3
        \<and> feedback_history s = [''too vague'', ''too long'', ''wrong topic'']
        \<and> map le_attempt_number (log s) = [1, 2, 3, 4]
        \<and> map le_generated_name (log s)
            = [''firstDraft'', ''budgetReview'', ''budget'', ''travelNotes'']
        \<and> new_directory_name s = Some ''travelNotes''
        \<and> map le_user_action (log s) = [''retry'', ''retry'', ''retry'', ''max_retries_reached''])"
proof -
  have h1: "\<forall>n. env_create_retry_analysis_payload listening_env n = Some ()
          \<and> env_save_retry_analysis listening_env n"
    and h2: "\<forall>e. env_log_writable listening_env e"
    and h3: "\<forall>n \<le> 3. env_satisfaction listening_env n = Two"
    and h4: "env_satisfaction listening_env 0 = Two" "env_satisfaction listening_env 1 = Two"
      "env_satisfaction listening_env 2 = Two" "env_satisfaction listening_env 3 = Two"
    by (simp_all add: listening_env_def scenario_env_def)
  note main = three_retries_then_forced_acceptance[of listening_env "\<lambda>n. ()", OF h1 h2 h3,
      unfolded listening_env_feedback]
  from main
  obtain s where s: "negotiation_loop listening_env (initial_state listening_env) = Inr s"
    "retry_count s = 3"
    "feedback_history s = [''too vague'', ''too long'', ''wrong topic'']"
    "map le_attempt_number (log s) = [1, 2, 3, 4]"
    and names: "map le_generated_name (log s) =
          [or_empty (if truthy (env_data_home_root listening_env)
                     then generate_directory_name_with_feedback (the_client listening_env 0)
                            (env_analysis_data listening_env) None (env_now listening_env 0)
                     else generate_directory_name (the_client listening_env 0)
                            (env_analysis_data listening_env) (env_now listening_env 0)),
           or_empty (generate_directory_name_with_feedback (the_client listening_env 1) ()
             (Some ''too vague'') (env_now listening_env 1)),
           or_empty (generate_directory_name_with_feedback (the_client listening_env 2) ()
             (Some (''too vague'' @ '' | '' @ ''too long'')) (env_now listening_env 2)),
           or_empty (generate_directory_name_with_feedback (the_client listening_env 3) ()
             (Some (''too vague'' @ '' | '' @ ''too long'' @ '' | '' @ ''wrong topic''))
             (env_now listening_env 3))]"
    and final: "new_directory_name s =
          generate_directory_name_with_feedback (the_client listening_env 3) ()
            (Some (''too vague'' @ '' | '' @ ''too long'' @ '' | '' @ ''wrong topic''))
            (env_now listening_env 3)"
    and acts: "map le_user_action (log s)
                 = [''retry'', ''retry'', ''retry'', ''max_retries_reached'']"
    by (elim exE conjE)
  have j: "''too vague'' @ '' | '' @ ''too long'' = ''too vague | too long''"
    "''too vague'' @ '' | '' @ ''too long'' @ '' | '' @ ''wrong topic''
       = ''too vague | too long | wrong topic''"
    by simp_all
  have names': "map le_generated_name (log s)
            = [''firstDraft'', ''budgetReview'', ''budget'', ''travelNotes'']"
    using names unfolding j listening_env_names
    by (simp add: listening_env_data_home listening_env_names or_empty_def)
  have final': "new_directory_name s = Some ''travelNotes''"
    using final unfolding j listening_env_names .
  have "\<exists>s. negotiation_loop listening_env (initial_state listening_env) = Inr s
        \<and> retry_count s = 3
        \<and> feedback_history s = [''too vague'', ''too long'', ''wrong topic'']
        \<and> map le_attempt_number (log s) = [1, 2, 3, 4]
        \<and> map le_generated_name (log s)
            = [''firstDraft'', ''budgetReview'', ''budget'', ''travelNotes'']
        \<and> new_directory_name s = Some ''travelNotes''
        \<and> map le_user_action (log s) = [''retry'', ''retry'', ''retry'', ''max_retries_reached'']"
    by (rule exI[of _ s], intro conjI)
      (rule s(1), rule s(2), rule s(3), rule s(4), rule names', rule final', rule acts)
  with h1 h2 h4 show ?thesis by (intro conjI)
qed

text \<open>
  The claim as stated fails.  The source numbers the attempts from the first generation
  (\<open>attempt_number = retry_count + 1\<close>); in that session the third generator call, logged
  as attempt 3, is made with a feedback history of length 2: its candidate is the
  generator's reply to the first two feedback lines, not its reply to all three.
\<close>

theorem third_call_sees_two_feedbacks:
  "env_satisfaction listening_env 0 = Two \<and> env_satisfaction listening_env 1 = Two
   \<and> env_satisfaction listening_env 2 = Two
   \<and> le_attempt_number (log_of (negotiation_loop listening_env (initial_state listening_env)) ! 2)
       = 3
   \<and> le_generated_name (log_of (negotiation_loop listening_env (initial_state listening_env)) ! 2)
       = ''budget''
   \<and> generate_directory_name_with_feedback (the_client listening_env 2) ()
        (Some ''too vague | too long'') (env_now listening_env 2) = Some ''budget''
   \<and> generate_directory_name_with_feedback (the_client listening_env 2) ()
        (Some ''too vague | too long | wrong topic'') (env_now listening_env 2)
       = Some ''travelNotes''
   \<and> call_attempt (calls_of (negotiation_loop listening_env (initial_state listening_env)) ! 2) = 3
   \<and> call_history (calls_of (negotiation_loop listening_env (initial_state listening_env)) ! 2)
       = [''too vague'', ''too long'']
   \<and> length (call_history
         (calls_of (negotiation_loop listening_env (initial_state listening_env)) ! 2)) \<noteq> 3"
proof -
  have ok': "\<forall>n. env_create_retry_analysis_payload listening_env n \<noteq> None
          \<and> env_save_retry_analysis listening_env n"
    by (simp add: listening_env_def scenario_env_def)
  from all_retries_run[OF ok' listening_env_premises(2,3), unfolded listening_env_feedback]
  obtain s
    where run: "negotiation_loop listening_env (initial_state listening_env) = Inr s"
      and at: "map call_attempt (calls s) = [1, 2, 3, 4]"
      and hist: "map call_history (calls s) =
          [[], [''too vague''], [''too vague'', ''too long''],
           [''too vague'', ''too long'', ''wrong topic'']]"
    by (elim exE conjE)
  from all_retries_names[OF listening_env_premises, unfolded listening_env_feedback]
  obtain s' where run': "negotiation_loop listening_env (initial_state listening_env) = Inr s'"
    and nm: "map le_generated_name (log s') =
          [or_empty (name_from_history listening_env 0 (env_analysis_data listening_env) []),
           or_empty (name_from_history listening_env 1 () [''too vague'']),
           or_empty (name_from_history listening_env 2 () [''too vague'', ''too long'']),
           or_empty (name_from_history listening_env 3 ()
             [''too vague'', ''too long'', ''wrong topic''])]"
    and num: "map le_attempt_number (log s') = [1, 2, 3, 4]"
    by (elim exE conjE)
  from run run' have e: "s' = s" by simp
  have len: "length (calls s) = 4"
    using arg_cong[OF at, of length] by simp
  have llen: "length (log s) = 4"
    using arg_cong[OF num, of length] unfolding e by simp
  have "call_attempt (calls s ! 2) = map call_attempt (calls s) ! 2"
    using len by simp
  then have a3: "call_attempt (calls s ! 2) = 3" unfolding at by simp
  have "call_history (calls s ! 2) = map call_history (calls s) ! 2"
    using len by simp
  then have h3: "call_history (calls s ! 2) = [''too vague'', ''too long'']" unfolding hist by simp
  have "le_attempt_number (log s ! 2) = map le_attempt_number (log s) ! 2"
    using llen by simp
  then have l3: "le_attempt_number (log s ! 2) = 3" using num unfolding e by simp
  have "le_generated_name (log s ! 2) = map le_generated_name (log s) ! 2"
    using llen by simp
  then have "le_generated_name (log s ! 2)
      = or_empty (name_from_history listening_env 2 () [''too vague'', ''too long''])"
    using nm unfolding e by simp
  also have "name_from_history listening_env 2 () [''too vague'', ''too long'']
      = generate_directory_name_with_feedback (the_client listening_env 2) ()
          (Some ''too vague | too long'') (env_now listening_env 2)"
    by (simp add: name_from_history_def)
  finally have g3: "le_generated_name (log s ! 2) = ''budget''"
    unfolding listening_env_names by (simp add: or_empty_def)
  have c: "calls_of (negotiation_loop listening_env (initial_state listening_env)) = calls s"
    unfolding run by (simp add: calls_of_def)
  have l: "log_of (negotiation_loop listening_env (initial_state listening_env)) = log s"
    unfolding run by (simp add: log_of_def)
  have t: "env_satisfaction listening_env 0 = Two" "env_satisfaction listening_env 1 = Two"
    "env_satisfaction listening_env 2 = Two"
    by (simp_all add: listening_env_def scenario_env_def)
  have len3: "length (call_history (calls s ! 2)) \<noteq> 3" unfolding h3 by simp
  show ?thesis
    unfolding c l
    by (intro conjI)
      (rule t(1), rule t(2), rule t(3), rule l3, rule g3, rule listening_env_names(3),
        rule listening_env_names(4), rule a3, rule h3, rule len3)
qed

section \<open>Failure of the attempt logger\<close>

lemma generate_candidate_log_writable [simp]:
  "generate_candidate (env\<lparr>env_log_writable := w\<rparr>) s = generate_candidate env s"
  by (simp add: generate_candidate_def the_client_def Let_def split: option.split)

lemma initial_state_log_writable [simp]:
  "initial_state (env\<lparr>env_log_writable := w\<rparr>) = initial_state env"
  by (simp add: initial_state_def)

lemma log_attempt_dichotomy:
  "log_attempt env s n a f = Inl LogWriteError
   \<or> log_attempt env s n a f = log_attempt (env\<lparr>env_log_writable := \<lambda>e. True\<rparr>) s n a f"
  by (simp add: log_attempt_def log_naming_attempt_def)

lemma log_attempt_Inl: "log_attempt env s n a f = Inl e \<Longrightarrow> e = LogWriteError"
  by (auto simp: log_attempt_def log_naming_attempt_def split: if_splits)

lemma decide_dichotomy:
  "decide env s = Inl LogWriteError
   \<or> decide env s = decide (env\<lparr>env_log_writable := \<lambda>e. True\<rparr>) s"
proof -
  let ?env' = "env\<lparr>env_log_writable := \<lambda>e. True\<rparr>"
  have k: "(case log_attempt env t n a f of Inl e \<Rightarrow> Inl e | Inr s' \<Rightarrow> Inr (h s')) = Inl LogWriteError
      \<or> (case log_attempt env t n a f of Inl e \<Rightarrow> Inl e | Inr s' \<Rightarrow> Inr (h s'))
        = (case log_attempt ?env' t n a f of Inl e \<Rightarrow> Inl e | Inr s' \<Rightarrow> Inr (h s'))"
    for t n a f and h :: "'a loop_state \<Rightarrow> 'a loop_state \<times> flow"
    using log_attempt_dichotomy[of env t n a f] by (auto split: sum.splits)
  show ?thesis
    unfolding decide_def Let_def
    by (simp add: k)
qed

lemma loop_body_dichotomy:
  "loop_body env s = Inl LogWriteError
   \<or> loop_body env s = loop_body (env\<lparr>env_log_writable := \<lambda>e. True\<rparr>) s"
  using decide_dichotomy[of env] by (auto simp: loop_body_def split: sum.splits)

lemma negotiation_loop_dichotomy:
  "negotiation_loop env s = Inl LogWriteError
   \<or> negotiation_loop env s = negotiation_loop (env\<lparr>env_log_writable := \<lambda>e. True\<rparr>) s"
proof (induction env s rule: negotiation_loop.induct)
  case (1 env s)
  let ?env' = "env\<lparr>env_log_writable := \<lambda>e. True\<rparr>"
  show ?case
  proof (cases "retry_count s \<le> max_retries")
    case False
    then show ?thesis
      by (subst negotiation_loop.simps, subst (2) negotiation_loop.simps) simp
  next
    case True
    from loop_body_dichotomy[of env s] show ?thesis
    proof
      assume "loop_body env s = Inl LogWriteError"
      with True show ?thesis by (simp add: negotiation_loop_unfold_error)
    next
      assume same: "loop_body env s = loop_body ?env' s"
      show ?thesis
      proof (cases "loop_body env s")
        case (Inl e)
        with same have "loop_body ?env' s = Inl e" by simp
        with Inl True have "negotiation_loop env s = Inl e" "negotiation_loop ?env' s = Inl e"
          by (simp_all add: negotiation_loop_unfold_error)
        then show ?thesis by simp
      next
        case (Inr c)
        obtain s2 fl where c: "c = (s2, fl)" by (cases c)
        from Inr c same have b': "loop_body ?env' s = Inr (s2, fl)" by simp
        show ?thesis
        proof (cases fl)
          case Break
          with Inr c b' True have "negotiation_loop env s = Inr s2"
            "negotiation_loop ?env' s = Inr s2"
            by (simp_all add: negotiation_loop_unfold_break)
          then show ?thesis by simp
        next
          case Continue
          from "1.IH"[OF True Inr c[symmetric] Continue]
          have "negotiation_loop env s2 = Inl LogWriteError
                \<or> negotiation_loop env s2 = negotiation_loop ?env' s2" .
          moreover have "negotiation_loop env s = negotiation_loop env s2"
            using Continue Inr c True by (simp add: negotiation_loop_unfold_retry)
          moreover have "negotiation_loop ?env' s = negotiation_loop ?env' s2"
            using Continue b' True by (simp add: negotiation_loop_unfold_retry)
          ultimately show ?thesis by simp
        qed
      qed
    qed
  qed
qed

lemma decide_appends_or_aborts:
  "decide env s = Inl LogWriteError
   \<or> (\<exists>s' fl row. decide env s = Inr (s', fl) \<and> log s' = log s @ [row] \<and> env_log_writable env row)"
proof (cases "truthy (new_directory_name s)")
  case True
  show ?thesis
    unfolding decide_with_name[OF True]
    by (auto simp: Let_def split: menu_answer.splits)
next
  case False
  then show ?thesis
    by (auto simp: decide_def log_attempt_def log_naming_attempt_def)
qed

lemma unwritable_log_aborts:
  assumes "\<forall>row. \<not> env_log_writable env row"
  shows "\<exists>e. negotiation_loop env (initial_state env) = Inl e"
proof (cases "negotiation_loop env (initial_state env)")
  case (Inl e)
  then show ?thesis by blast
next
  case (Inr s')
  from reachable_invariant[OF negotiation_loop_finished[OF Inr]]
  have "length (log s') = retry_count s' + 1" and "\<forall>e \<in> set (log s'). env_log_writable env e"
    by (simp_all add: loop_invariant_def)
  then obtain row where "row \<in> set (log s')" "env_log_writable env row"
    by (cases "log s'") auto
  with assms show ?thesis by blast
qed

section \<open>The session that accepts the first candidate\<close>

lemma scenario_reply_valid:
  "py_strip ''docBudgetReview'' = ''docBudgetReview''"
  "validate_directory_name ''docBudgetReview''"
  by (simp_all add: py_strip_def py_isspace_def validate_directory_name_def re_match_camel_def
      re_dollar_def is_alnum_class_def is_lower_az_def is_upper_AZ_def is_digit_09_def
      code_point_def newline_def)

lemma accepting_env_generate:
  "generate_candidate (accepting_env w) (initial_state (accepting_env w)) =
     Inr \<lparr>retry_count = 0, feedback_history = [], current_analysis_data = (),
          new_directory_name = Some ''docBudgetReview'', optimal_parent_path = None, log = [],
          calls = [\<lparr>call_attempt = 1, call_history = [], call_feedback = None\<rparr>]\<rparr>"
  by (simp add: generate_candidate_def accepting_env_def initial_state_def truthy_def
      the_client_def generate_directory_name_def scenario_reply_valid Let_def)

lemma accepting_env_run:
  "loop_outcome (negotiation_loop (accepting_env w) (initial_state (accepting_env w))) =
     (if w then Inr (Some ''docBudgetReview'', 0, []) else Inl LogWriteError)"
proof -
  let ?e = "accepting_env w"
  let ?g = "\<lparr>retry_count = 0, feedback_history = [], current_analysis_data = (),
          new_directory_name = Some ''docBudgetReview'', optimal_parent_path = None, log = [],
          calls = [\<lparr>call_attempt = 1, call_history = [], call_feedback = None\<rparr>]\<rparr>"
  have t: "truthy (new_directory_name ?g)" by (simp add: truthy_def)
  have one: "env_satisfaction ?e (retry_count ?g) = One" by (simp add: accepting_env_def)
  have wr: "env_log_writable ?e row = w" for row by (simp add: accepting_env_def)
  have d: "decide ?e ?g =
     (if w then Inr (?g\<lparr>log := log ?g @ [decision_row ?e ?g ''accept'' []]\<rparr>, Break)
      else Inl LogWriteError)"
    unfolding decide_with_name[OF t] one wr by simp
  have b: "loop_body ?e (initial_state ?e) =
     (if w then Inr (?g\<lparr>log := log ?g @ [decision_row ?e ?g ''accept'' []]\<rparr>, Break)
      else Inl LogWriteError)"
    unfolding loop_body_def accepting_env_generate d[symmetric] by simp
  have c: "retry_count (initial_state ?e) \<le> max_retries" by (simp add: initial_state_def)
  show ?thesis
  proof (cases w)
    case True
    with b have "loop_body ?e (initial_state ?e)
        = Inr (?g\<lparr>log := log ?g @ [decision_row ?e ?g ''accept'' []]\<rparr>, Break)"
      by simp
    from negotiation_loop_unfold_break[OF c this] True show ?thesis
      by (simp add: loop_outcome_def)
  next
    case False
    with b have "loop_body ?e (initial_state ?e) = Inl LogWriteError" by simp
    from negotiation_loop_unfold_error[OF c this] False show ?thesis
      by (simp add: loop_outcome_def)
  qed
qed

text \<open>
  Claim C3 (as amended).  The logger has no error handling and the loop has none around
  its calls: a run of the loop either ends with the logger's error, or it is the run that
  the same session has when every append succeeds.  Every decision either appends one
  row, which could be written, or ends the loop with the logger's error; when no row can
  be written the loop returns no candidate at all.
\<close>

theorem logger_failure_aborts_the_loop:
  "(negotiation_loop env (initial_state env) = Inl LogWriteError
      \<or> negotiation_loop env (initial_state env)
          = negotiation_loop (env\<lparr>env_log_writable := \<lambda>e. True\<rparr>)
              (initial_state (env\<lparr>env_log_writable := \<lambda>e. True\<rparr>)))
   \<and> (decide env s = Inl LogWriteError
      \<or> (\<exists>s' fl row. decide env s = Inr (s', fl) \<and> log s' = log s @ [row]
            \<and> env_log_writable env row))
   \<and> ((\<forall>row. \<not> env_log_writable env row)
        \<longrightarrow> (\<exists>e. negotiation_loop env (initial_state env) = Inl e))"
proof (intro conjI impI)
  show "negotiation_loop env (initial_state env) = Inl LogWriteError
      \<or> negotiation_loop env (initial_state env)
          = negotiation_loop (env\<lparr>env_log_writable := \<lambda>e. True\<rparr>)
              (initial_state (env\<lparr>env_log_writable := \<lambda>e. True\<rparr>))"
    using negotiation_loop_dichotomy[of env "initial_state env"] by simp
  show "decide env s = Inl LogWriteError
      \<or> (\<exists>s' fl row. decide env s = Inr (s', fl) \<and> log s' = log s @ [row]
            \<and> env_log_writable env row)"
    by (rule decide_appends_or_aborts)
  assume "\<forall>row. \<not> env_log_writable env row"
  then show "\<exists>e. negotiation_loop env (initial_state env) = Inl e"
    by (rule unwritable_log_aborts)
qed

theorem logger_failure_aborts_the_loop_witness:
  "(\<forall>row. \<not> env_log_writable (accepting_env False) row)
   \<and> (\<exists>e. negotiation_loop (accepting_env False) (initial_state (accepting_env False)) = Inl e)"
proof -
  have h: "\<forall>row. \<not> env_log_writable (accepting_env False) row"
    by (simp add: accepting_env_def)
  from logger_failure_aborts_the_loop[of "accepting_env False", THEN conjunct2, THEN conjunct2,
      THEN mp, OF h] h
  show ?thesis by (intro conjI)
qed

text \<open>
  The claim as stated fails: the session that accepts the first candidate ends with that
  candidate when the log can be written, and with the logger's error, without a
  candidate, when it cannot.
\<close>

theorem unwritable_log_loses_the_candidate:
  "loop_outcome (negotiation_loop (accepting_env True) (initial_state (accepting_env True)))
     = Inr (Some ''docBudgetReview'', 0, [])
   \<and> loop_outcome (negotiation_loop (accepting_env False) (initial_state (accepting_env False)))
     = Inl LogWriteError"
  using accepting_env_run[of True] accepting_env_run[of False] by simp

section \<open>Generation never fails\<close>

lemma generate_directory_name_result:
  "\<exists>name. generate_directory_name client payload now = Some name \<and> name \<noteq> []
     \<and> (name = create_fallback_name now
         \<or> (\<exists>call text. client = Some call \<and> call (create_naming_prompt payload) = Reply text
               \<and> name = py_strip text \<and> validate_directory_name name))"
  by (auto simp: generate_directory_name_def Let_def fallback_nonempty validated_nonempty
      split: option.splits api_outcome.splits)

lemma generate_directory_name_with_feedback_result:
  "\<exists>name. generate_directory_name_with_feedback client payload feedback now = Some name
     \<and> name \<noteq> []
     \<and> (name = create_fallback_name now
         \<or> (\<exists>call text. client = Some call
               \<and> call (create_naming_prompt_with_feedback payload feedback) = Reply text
               \<and> name = py_strip text \<and> validate_directory_name name))"
  by (auto simp: generate_directory_name_with_feedback_def Let_def fallback_nonempty
      validated_nonempty split: option.splits api_outcome.splits)

lemma logged_actions_not_generation_failed:
  assumes "reachable env pt s" and "e \<in> set (log s)"
  shows "le_user_action e \<noteq> ''generation_failed''"
proof -
  from reachable_invariant[OF assms(1)] assms(2)
  have "le_user_action e \<in> {''retry'', ''accept'', ''max_retries_reached''}"
    by (simp add: loop_invariant_def)
  then show ?thesis by auto
qed

lemma reachable_named:
  assumes "reachable env pt s" and "pt \<noteq> AtHead"
  shows "truthy (new_directory_name s)"
  using reachable_invariant[OF assms(1)] assms(2) by (simp add: loop_invariant_def)

text \<open>
  Claim C10.  Both generators always return a non-empty name, either the fallback name
  or a stripped reply that passed the validator.  So in the loop every state after a
  generation has a candidate name, no row \<open>generation_failed\<close> is ever logged, and a loop
  that returns does so with a candidate name.
\<close>

theorem generation_never_fails:
  fixes env :: "'p env" and client :: "'q client"
  shows "(\<exists>name. generate_directory_name client payload now = Some name \<and> name \<noteq> []
            \<and> (name = create_fallback_name now
                \<or> (\<exists>call text. client = Some call
                      \<and> call (create_naming_prompt payload) = Reply text
                      \<and> name = py_strip text \<and> validate_directory_name name)))
       \<and> (\<exists>name. generate_directory_name_with_feedback client payload feedback now = Some name
            \<and> name \<noteq> []
            \<and> (name = create_fallback_name now
                \<or> (\<exists>call text. client = Some call
                      \<and> call (create_naming_prompt_with_feedback payload feedback) = Reply text
                      \<and> name = py_strip text \<and> validate_directory_name name)))
       \<and> (reachable env pt s \<longrightarrow>
             (pt \<noteq> AtHead \<longrightarrow> truthy (new_directory_name s))
             \<and> (\<forall>e \<in> set (log s). le_user_action e \<noteq> ''generation_failed''))
       \<and> (\<forall>s'. negotiation_loop env (initial_state env) = Inr s' \<longrightarrow>
             truthy (new_directory_name s')
             \<and> (\<forall>e \<in> set (log s'). le_user_action e \<noteq> ''generation_failed''))"
proof (intro conjI impI allI ballI)
  show "\<exists>name. generate_directory_name client payload now = Some name \<and> name \<noteq> []
            \<and> (name = create_fallback_name now
                \<or> (\<exists>call text. client = Some call
                      \<and> call (create_naming_prompt payload) = Reply text
                      \<and> name = py_strip text \<and> validate_directory_name name))"
    by (rule generate_directory_name_result)
  show "\<exists>name. generate_directory_name_with_feedback client payload feedback now = Some name
            \<and> name \<noteq> []
            \<and> (name = create_fallback_name now
                \<or> (\<exists>call text. client = Some call
                      \<and> call (create_naming_prompt_with_feedback payload feedback) = Reply text
                      \<and> name = py_strip text \<and> validate_directory_name name))"
    by (rule generate_directory_name_with_feedback_result)
next
  assume "reachable env pt s" "pt \<noteq> AtHead"
  then show "truthy (new_directory_name s)" by (rule reachable_named)
next
  fix e assume "reachable env pt s" "e \<in> set (log s)"
  then show "le_user_action e \<noteq> ''generation_failed''"
    by (rule logged_actions_not_generation_failed)
next
  fix s' assume "negotiation_loop env (initial_state env) = Inr s'"
  then have "reachable env Finished s'" by (rule negotiation_loop_finished)
  then show "truthy (new_directory_name s')" by (rule reachable_named) simp
next
  fix s' e assume "negotiation_loop env (initial_state env) = Inr s'" "e \<in> set (log s')"
  from negotiation_loop_finished[OF this(1)] this(2)
  show "le_user_action e \<noteq> ''generation_failed''"
    by (rule logged_actions_not_generation_failed)
qed

theorem generation_never_fails_witness:
  "\<exists>s. negotiation_loop scenario_env (initial_state scenario_env) = Inr s
     \<and> reachable scenario_env Finished s
     \<and> truthy (new_directory_name s)
     \<and> list_all (\<lambda>e. le_user_action e \<noteq> ''generation_failed'') (log s)"
proof -
  from scenario_env_run obtain s
    where run: "negotiation_loop scenario_env (initial_state scenario_env) = Inr s"
    by (elim exE conjE)
  have r: "reachable scenario_env Finished s"
    using run by (rule negotiation_loop_finished)
  note main = generation_never_fails[where env = scenario_env and pt = Finished and s = s
      and client = "None :: unit client" and payload = "()" and feedback = None
      and now = "\<lparr>year = 2026, month = 11, day = 3\<rparr>"]
  note reach = main[THEN conjunct2, THEN conjunct2, THEN conjunct1, THEN mp, OF r]
  have t: "truthy (new_directory_name s)"
    using reach[THEN conjunct1] by simp
  have l: "list_all (\<lambda>e. le_user_action e \<noteq> ''generation_failed'') (log s)"
    using reach[THEN conjunct2] by (simp only: list_all_iff)
  show ?thesis
    by (rule exI[of _ s], intro conjI) (rule run, rule r, rule t, rule l)
qed

section \<open>Routing: the override for news transcripts\<close>

lemma startswith_iff: "startswith s p \<longleftrightarrow> (\<exists>suf. s = p @ suf)"
proof
  assume "startswith s p"
  then have "s = p @ drop (length p) s"
    by (metis append_take_drop_id startswith_def)
  then show "\<exists>suf. s = p @ suf" ..
next
  assume "\<exists>suf. s = p @ suf"
  then show "startswith s p" by (auto simp: startswith_def)
qed

lemma py_in_iff: "py_in p s \<longleftrightarrow> (\<exists>pre suf. s = pre @ p @ suf)"
proof (induction s)
  case Nil
  then show ?case by simp
next
  case (Cons c cs)
  show ?case
  proof
    assume "py_in p (c # cs)"
    then consider "startswith (c # cs) p" | "py_in p cs" by auto
    then show "\<exists>pre suf. c # cs = pre @ p @ suf"
    proof cases
      case 1
      then obtain suf where "c # cs = [] @ p @ suf" by (auto simp: startswith_iff)
      then show ?thesis by blast
    next
      case 2
      with Cons.IH obtain pre suf where "cs = pre @ p @ suf" by blast
      then have "c # cs = (c # pre) @ p @ suf" by simp
      then show ?thesis by blast
    qed
  next
    assume "\<exists>pre suf. c # cs = pre @ p @ suf"
    then obtain pre suf where e: "c # cs = pre @ p @ suf" by blast
    show "py_in p (c # cs)"
    proof (cases pre)
      case Nil
      with e have "startswith (c # cs) p" by (auto simp: startswith_iff)
      then show ?thesis by simp
    next
      case (Cons a pre')
      with e have "cs = pre' @ p @ suf" by simp
      with Cons.IH have "py_in p cs" by blast
      then show ?thesis by simp
    qed
  qed
qed

lemma os_path_join_single:
  "os_path_join root [''filetree/roots/documents/Text Documents''] =
     (if root = [] \<or> last root = CHR ''/'' then root @ ''filetree/roots/documents/Text Documents''
      else root @ ''/filetree/roots/documents/Text Documents'')"
proof -
  have e: "endswith root ''/'' \<longleftrightarrow> root \<noteq> [] \<and> last root = CHR ''/''"
    by (cases root rule: rev_cases) (simp_all add: endswith_def startswith_def)
  show ?thesis
    by (auto simp: os_path_join_def path_join_step_def startswith_def e)
qed

text \<open>
  Claim C6.  When the source path, with backslashes read as slashes, contains
  \<open>News/transcripts\<close>, the router returns the Text-Documents directory under the
  DATA-HOME root, whatever the candidate name is: the name is not looked at.
\<close>

theorem news_transcript_override:
  assumes "replace_backslash source_path = pre @ ''News/transcripts'' @ suf"
  shows "determine_optimal_parent_directory directory_name data_home_root (Some source_path)
           = os_path_join data_home_root [''filetree/roots/documents/Text Documents'']
       \<and> (data_home_root \<noteq> [] \<and> last data_home_root \<noteq> CHR ''/'' \<longrightarrow>
            determine_optimal_parent_directory directory_name data_home_root (Some source_path)
              = data_home_root @ ''/filetree/roots/documents/Text Documents'')"
proof -
  from assms have ne: "source_path \<noteq> []" by (auto simp: replace_backslash_def)
  from assms have "py_in ''News/transcripts'' (replace_backslash source_path)"
    unfolding py_in_iff by blast
  with ne have "is_news_transcript_source (Some source_path)"
    by (simp add: is_news_transcript_source_def Let_def)
  then have r: "determine_optimal_parent_directory directory_name data_home_root (Some source_path)
           = os_path_join data_home_root [''filetree/roots/documents/Text Documents'']"
    by (simp add: determine_optimal_parent_directory_def)
  show ?thesis
    unfolding r by (simp add: os_path_join_single)
qed

theorem news_transcript_override_witness:
  "replace_backslash ''~/News/transcripts/x'' = ''~/'' @ ''News/transcripts'' @ ''/x''
   \<and> determine_optimal_parent_directory ''audPodClimate'' ''/data'' (Some ''~/News/transcripts/x'')
       = ''/data/filetree/roots/documents/Text Documents''"
proof -
  have h: "replace_backslash ''~/News/transcripts/x'' = ''~/'' @ ''News/transcripts'' @ ''/x''"
    by (simp add: replace_backslash_def)
  have r: "''/data'' \<noteq> [] \<and> last ''/data'' \<noteq> CHR ''/''" by simp
  from news_transcript_override[OF h, of "''audPodClimate''" "''/data''", THEN conjunct2, THEN mp, OF r]
  have "determine_optimal_parent_directory ''audPodClimate'' ''/data'' (Some ''~/News/transcripts/x'')
       = ''/data'' @ ''/filetree/roots/documents/Text Documents''" .
  then have "determine_optimal_parent_directory ''audPodClimate'' ''/data'' (Some ''~/News/transcripts/x'')
       = ''/data/filetree/roots/documents/Text Documents''" by simp
  with h show ?thesis by (intro conjI)
qed

section \<open>Conflict resolution\<close>

lemma digit_char_inj: "a < 10 \<Longrightarrow> b < 10 \<Longrightarrow> digit_char a = digit_char b \<Longrightarrow> a = b"
proof -
  assume a: "a < 10" and b: "b < 10" and e: "digit_char a = digit_char b"
  from e have "code_point (digit_char a) = code_point (digit_char b)" by simp
  with a b show "a = b" by (simp add: code_point_digit_char)
qed

lemma str_nat_nonempty: "str_nat n \<noteq> []"
  by (subst str_nat.simps) simp

lemma str_nat_inj: "str_nat m = str_nat n \<Longrightarrow> m = n"
proof (induction m arbitrary: n rule: str_nat.induct)
  case (1 m)
  show ?case
  proof (cases "m < 10")
    case True
    then have m: "str_nat m = [digit_char m]" by (subst str_nat.simps) simp
    show ?thesis
    proof (cases "n < 10")
      case n: True
      then have "str_nat n = [digit_char n]" by (subst str_nat.simps) simp
      with m "1.prems" True n show ?thesis by (auto dest: digit_char_inj)
    next
      case False
      then have "str_nat n = str_nat (n div 10) @ [digit_char (n mod 10)]"
        by (subst str_nat.simps) simp
      with m "1.prems" str_nat_nonempty[of "n div 10"] show ?thesis by simp
    qed
  next
    case False
    then have m: "str_nat m = str_nat (m div 10) @ [digit_char (m mod 10)]"
      by (subst str_nat.simps) simp
    show ?thesis
    proof (cases "n < 10")
      case True
      then have "str_nat n = [digit_char n]" by (subst str_nat.simps) simp
      with m "1.prems" str_nat_nonempty[of "m div 10"] show ?thesis by simp
    next
      case n: False
      then have "str_nat n = str_nat (n div 10) @ [digit_char (n mod 10)]"
        by (subst str_nat.simps) simp
      with m "1.prems" have q: "str_nat (m div 10) = str_nat (n div 10)"
        and r: "digit_char (m mod 10) = digit_char (n mod 10)" by simp_all
      from "1.IH"[OF False q] have "m div 10 = n div 10" .
      moreover from r have "m mod 10 = n mod 10"
        using digit_char_inj[of "m mod 10" "n mod 10"] by simp
      ultimately show ?thesis by (metis div_mult_mod_eq)
    qed
  qed
qed

text \<open>
  From \<open>counter = c\<close> with the name suffixed \<open>c - 1\<close> in hand, the loop stops at the first
  free suffix \<open>k \<ge> c - 1\<close>.
\<close>

lemma conflict_loop_run:
  assumes "\<not> exists_in_parent (base @ str_nat k)"
    and "\<forall>j. c \<le> j \<and> j < k \<longrightarrow> exists_in_parent (base @ str_nat j)"
    and "c \<le> k"
  shows "conflict_loop exists_in_parent base (base @ str_nat c) (c + 1) = Some (base @ str_nat k, k + 1)"
  using assms
proof (induction "k - c" arbitrary: c)
  case 0
  then have "c = k" by simp
  with "0.prems"(1) show ?case by (subst conflict_loop.simps) simp
next
  case (Suc d)
  then have lt: "c < k" by simp
  with Suc.prems(2) have taken: "exists_in_parent (base @ str_nat c)" by simp
  have "conflict_loop exists_in_parent base (base @ str_nat (c + 1)) (c + 1 + 1)
          = Some (base @ str_nat k, k + 1)"
  proof (rule Suc.hyps(1))
    show "d = k - (c + 1)" using Suc.hyps(2) by simp
    show "\<not> exists_in_parent (base @ str_nat k)" by (rule Suc.prems(1))
    show "\<forall>j. c + 1 \<le> j \<and> j < k \<longrightarrow> exists_in_parent (base @ str_nat j)"
      using Suc.prems(2) by simp
    show "c + 1 \<le> k" using lt by simp
  qed
  with taken show ?case by (subst conflict_loop.simps) simp
qed

lemma free_suffix_exists:
  assumes "finite {n. exists_in_parent n}"
  shows "\<exists>k \<ge> c. \<not> exists_in_parent (base @ str_nat k)"
proof (rule ccontr)
  assume "\<not> (\<exists>k \<ge> c. \<not> exists_in_parent (base @ str_nat k))"
  then have all: "\<And>k. c \<le> k \<Longrightarrow> exists_in_parent (base @ str_nat k)" by blast
  have inj: "inj_on (\<lambda>k. base @ str_nat k) {c..}"
    by (auto simp: inj_on_def dest: str_nat_inj)
  have "(\<lambda>k. base @ str_nat k) ` {c..} \<subseteq> {n. exists_in_parent n}"
    using all by auto
  with assms have fin: "finite ((\<lambda>k. base @ str_nat k) ` {c..})" by (rule rev_finite_subset)
  from finite_imageD[OF fin inj] have "finite {c..}" .
  then show False by (simp add: infinite_Ici)
qed

lemma resolve_conflict_free:
  "\<not> exists_in_parent base \<Longrightarrow> resolve_conflict exists_in_parent base = Some base"
  by (simp add: resolve_conflict_def conflict_loop.simps)

lemma resolve_conflict_taken:
  assumes "exists_in_parent base"
    and "\<not> exists_in_parent (base @ str_nat k)"
    and "\<forall>j. 1 \<le> j \<and> j < k \<longrightarrow> exists_in_parent (base @ str_nat j)"
    and "1 \<le> k"
  shows "resolve_conflict exists_in_parent base = Some (base @ str_nat k)"
proof -
  have "conflict_loop exists_in_parent base base 1
          = conflict_loop exists_in_parent base (base @ str_nat 1) (1 + 1)"
    using assms(1) by (subst conflict_loop.simps) simp
  also have "\<dots> = Some (base @ str_nat k, k + 1)"
    using assms(2,3,4) by (rule conflict_loop_run)
  finally show ?thesis using assms(4) by (simp add: resolve_conflict_def)
qed

lemma str_nat_1: "str_nat 1 = ''1''"
  by code_simp

lemma str_nat_2: "str_nat 2 = ''2''"
  by code_simp

lemma str_nat_3: "str_nat 3 = ''3''"
  by code_simp

lemmas str_nat_small = str_nat_1 str_nat_2 str_nat_3

text \<open>
  Claim C7.  With finitely many existing names in the destination parent, the conflict
  loop ends, and the name it selects does not exist: it is the candidate itself when that
  is free, and otherwise the candidate followed by the least positive integer whose
  suffixed name is free.  With \<open>base\<close>, \<open>base1\<close> and \<open>base2\<close> existing, the result is
  \<open>base3\<close>.
\<close>

theorem conflict_loop_selects_least_free_suffix:
  assumes "finite {n. exists_in_parent n}"
  shows "(\<exists>final. resolve_conflict exists_in_parent base = Some final
            \<and> \<not> exists_in_parent final
            \<and> (\<not> exists_in_parent base \<longrightarrow> final = base)
            \<and> (exists_in_parent base \<longrightarrow>
                 (\<exists>k \<ge> 1. final = base @ str_nat k
                    \<and> (\<forall>j. 1 \<le> j \<and> j < k \<longrightarrow> exists_in_parent (base @ str_nat j)))))
       \<and> ((\<forall>n. exists_in_parent n \<longleftrightarrow> n \<in> {base, base @ ''1'', base @ ''2''})
            \<longrightarrow> resolve_conflict exists_in_parent base = Some (base @ ''3''))"
proof (intro conjI impI)
  show "\<exists>final. resolve_conflict exists_in_parent base = Some final
            \<and> \<not> exists_in_parent final
            \<and> (\<not> exists_in_parent base \<longrightarrow> final = base)
            \<and> (exists_in_parent base \<longrightarrow>
                 (\<exists>k \<ge> 1. final = base @ str_nat k
                    \<and> (\<forall>j. 1 \<le> j \<and> j < k \<longrightarrow> exists_in_parent (base @ str_nat j))))"
  proof (cases "exists_in_parent base")
    case False
    then show ?thesis by (simp add: resolve_conflict_free)
  next
    case True
    define k where "k = (LEAST k. 1 \<le> k \<and> \<not> exists_in_parent (base @ str_nat k))"
    from free_suffix_exists[OF assms, of 1 base]
    have ex: "\<exists>k. 1 \<le> k \<and> \<not> exists_in_parent (base @ str_nat k)" by blast
    from LeastI_ex[OF ex] have k1: "1 \<le> k" and kfree: "\<not> exists_in_parent (base @ str_nat k)"
      unfolding k_def by simp_all
    have below: "\<forall>j. 1 \<le> j \<and> j < k \<longrightarrow> exists_in_parent (base @ str_nat j)"
    proof (intro allI impI)
      fix j assume j: "1 \<le> j \<and> j < k"
      show "exists_in_parent (base @ str_nat j)"
      proof (rule ccontr)
        assume "\<not> exists_in_parent (base @ str_nat j)"
        with j have "k \<le> j" unfolding k_def by (intro Least_le) simp
        with j show False by simp
      qed
    qed
    have r: "resolve_conflict exists_in_parent base = Some (base @ str_nat k)"
      using True kfree below k1 by (rule resolve_conflict_taken)
    have w: "\<exists>k' \<ge> 1. base @ str_nat k = base @ str_nat k'
                    \<and> (\<forall>j. 1 \<le> j \<and> j < k' \<longrightarrow> exists_in_parent (base @ str_nat j))"
      using k1 below by (intro exI[of _ k]) simp
    show ?thesis
      by (rule exI[of _ "base @ str_nat k"], intro conjI impI)
        (rule r, rule kfree, use True in simp, rule w)
  qed
next
  assume three: "\<forall>n. exists_in_parent n \<longleftrightarrow> n \<in> {base, base @ ''1'', base @ ''2''}"
  have "resolve_conflict exists_in_parent base = Some (base @ str_nat 3)"
  proof (rule resolve_conflict_taken)
    show "exists_in_parent base" by (simp add: three)
    show "\<not> exists_in_parent (base @ str_nat 3)" by (simp add: three str_nat_small)
    show "\<forall>j. 1 \<le> j \<and> j < 3 \<longrightarrow> exists_in_parent (base @ str_nat j)"
    proof (intro allI impI)
      fix j :: nat assume "1 \<le> j \<and> j < 3"
      then have "j = 1 \<or> j = 2" by arith
      then have "base @ str_nat j = base @ ''1'' \<or> base @ str_nat j = base @ ''2''"
        using str_nat_1 str_nat_2 by metis
      then show "exists_in_parent (base @ str_nat j)"
        by (auto simp: three)
    qed
    show "(1::nat) \<le> 3" by simp
  qed
  then show "resolve_conflict exists_in_parent base = Some (base @ ''3'')"
    by (simp add: str_nat_small)
qed

theorem conflict_loop_selects_least_free_suffix_witness:
  "finite {n. n \<in> {''report'', ''report1'', ''report2''}}
   \<and> resolve_conflict (\<lambda>n. n \<in> {''report'', ''report1'', ''report2''}) ''report'' = Some ''report3''"
proof -
  have f: "finite {n. n \<in> {''report'', ''report1'', ''report2''}}" by simp
  have h: "\<forall>n. (n \<in> {''report'', ''report1'', ''report2''})
             \<longleftrightarrow> n \<in> {''report'', ''report'' @ ''1'', ''report'' @ ''2''}"
    by simp
  from conflict_loop_selects_least_free_suffix[OF f, of "''report''", THEN conjunct2, THEN mp, OF h]
  have "resolve_conflict (\<lambda>n. n \<in> {''report'', ''report1'', ''report2''}) ''report''
          = Some (''report'' @ ''3'')" .
  then have "resolve_conflict (\<lambda>n. n \<in> {''report'', ''report1'', ''report2''}) ''report''
          = Some ''report3''" by simp
  with f show ?thesis by (intro conjI)
qed

section \<open>Placement: the staged fallback of the move\<close>

lemma make_log_entry_action [simp]:
  "le_user_action (make_log_entry se n src name parent a f d su) = a"
  by (simp add: make_log_entry_def)

lemma log_row_writable:
  assumes "\<forall>row. env_log_writable env row"
  shows "log_row env s lg name parent a f d =
           Inr (lg @ [make_log_entry (env_session_id env) (retry_count s + 1)
                        (env_directory_path env) name parent a f d (env_analysis_summary env)])"
  using assms by (simp add: log_row_def log_naming_attempt_def)

lemma local_rename_fallback_writable:
  assumes "\<forall>row. env_log_writable env row"
  shows "\<exists>p. local_rename_fallback env pe s lg (pe_target_directory pe) intact name = Inr p
     \<and> pl_name p = name
     \<and> pl_content_intact p = intact
     \<and> (pe_rename_ok pe \<longrightarrow>
           map le_user_action (pl_log p) = map le_user_action lg @ [''local_rename_success'']
           \<and> pl_directory_at p = (fst (pe_target_directory pe), name)
           \<and> pl_final_location p = (fst (pe_target_directory pe), name))
     \<and> (\<not> pe_rename_ok pe \<longrightarrow>
           map le_user_action (pl_log p) = map le_user_action lg @ [''total_failure'']
           \<and> pl_directory_at p = pe_target_directory pe
           \<and> pl_final_location p = pe_target_directory pe)"
proof (cases "pe_rename_ok pe")
  case True
  then show ?thesis
    by (simp add: local_rename_fallback_def Let_def log_row_writable[OF assms])
next
  case False
  then show ?thesis
    by (simp add: local_rename_fallback_def Let_def log_row_writable[OF assms])
qed

lemma move_raised_cases:
  assumes "\<not> (pe_makedirs_ok pe \<and> pe_move pe = Moved)"
  shows "move_to_optimal_location env pe s optimal_parent name =
       (case log_row env s (log s) name optimal_parent ''move_failed''
               (''Move error: '' @ pe_error_text pe
                  (if \<not> pe_makedirs_ok pe then MakedirsRaised else MoveRaised)) [] of
          Inl e \<Rightarrow> Inl e
        | Inr lg' \<Rightarrow> local_rename_fallback env pe s lg' (pe_target_directory pe)
            (\<not> (pe_makedirs_ok pe \<and> pe_move pe = RaisedAfterCopying)) name)"
proof (cases "pe_makedirs_ok pe")
  case False
  then show ?thesis by (simp add: move_to_optimal_location_def Let_def split: sum.split)
next
  case True
  with assms have "pe_move pe \<noteq> Moved" by simp
  with True show ?thesis
    by (cases "pe_move pe") (simp_all add: move_to_optimal_location_def Let_def split: sum.split)
qed

lemma move_to_optimal_location_writable:
  assumes "\<forall>row. env_log_writable env row"
  shows "\<exists>p. move_to_optimal_location env pe s optimal_parent name = Inr p
     \<and> pl_name p = name
     \<and> (pl_content_intact p \<longleftrightarrow> \<not> (pe_makedirs_ok pe \<and> pe_move pe = RaisedAfterCopying))
     \<and> (pe_makedirs_ok pe \<and> pe_move pe = Moved \<longrightarrow>
           map le_user_action (pl_log p) = map le_user_action (log s) @ [''moved_successfully'']
           \<and> pl_directory_at p = (optimal_parent, name)
           \<and> pl_final_location p = (optimal_parent, name))
     \<and> (\<not> (pe_makedirs_ok pe \<and> pe_move pe = Moved) \<and> pe_rename_ok pe \<longrightarrow>
           map le_user_action (pl_log p)
             = map le_user_action (log s) @ [''move_failed'', ''local_rename_success'']
           \<and> pl_directory_at p = (fst (pe_target_directory pe), name)
           \<and> pl_final_location p = (fst (pe_target_directory pe), name))
     \<and> (\<not> (pe_makedirs_ok pe \<and> pe_move pe = Moved) \<and> \<not> pe_rename_ok pe \<longrightarrow>
           map le_user_action (pl_log p)
             = map le_user_action (log s) @ [''move_failed'', ''total_failure'']
           \<and> pl_directory_at p = pe_target_directory pe
           \<and> pl_final_location p = pe_target_directory pe)"
proof (cases "pe_makedirs_ok pe \<and> pe_move pe = Moved")
  case True
  then show ?thesis
    by (simp add: move_to_optimal_location_def Let_def log_row_writable[OF assms])
next
  case False
  let ?i = "\<not> (pe_makedirs_ok pe \<and> pe_move pe = RaisedAfterCopying)"
  let ?e0 = "if \<not> pe_makedirs_ok pe then MakedirsRaised else MoveRaised"
  note m0 = move_raised_cases[OF False, of env s optimal_parent name]
  let ?lg = "log s @ [make_log_entry (env_session_id env) (retry_count s + 1)
                        (env_directory_path env) name optimal_parent ''move_failed''
                        (''Move error: '' @ pe_error_text pe ?e0) []
                        (env_analysis_summary env)]"
  have m: "move_to_optimal_location env pe s optimal_parent name
             = local_rename_fallback env pe s ?lg (pe_target_directory pe) ?i name"
    unfolding m0 by (simp add: log_row_writable[OF assms])
  from local_rename_fallback_writable[OF assms, of pe s ?lg ?i name]
  obtain p where p: "local_rename_fallback env pe s ?lg (pe_target_directory pe) ?i name = Inr p"
    "pl_name p = name"
    "pl_content_intact p = ?i"
    "pe_rename_ok pe \<longrightarrow>
           map le_user_action (pl_log p) = map le_user_action ?lg @ [''local_rename_success'']
           \<and> pl_directory_at p = (fst (pe_target_directory pe), name)
           \<and> pl_final_location p = (fst (pe_target_directory pe), name)"
    "\<not> pe_rename_ok pe \<longrightarrow>
           map le_user_action (pl_log p) = map le_user_action ?lg @ [''total_failure'']
           \<and> pl_directory_at p = pe_target_directory pe
           \<and> pl_final_location p = pe_target_directory pe"
    by (elim exE conjE)
  have a: "map le_user_action ?lg = map le_user_action (log s) @ [''move_failed'']"
    by simp
  show ?thesis
    unfolding m
    apply (rule exI[of _ p])
    using p(1,2,3) p(4)[unfolded a] p(5)[unfolded a] False
    apply (simp only: append_assoc append_Cons append_Nil)
    apply blast
    done
qed

text \<open>
  Claim C9 (as amended).  When the rows can be appended to the log, the move after the
  user's consent is a staged fallback.  If creating the parent and moving succeed, the row
  is \<open>moved_successfully\<close> and the directory is at the destination.  Otherwise the row
  \<open>move_failed\<close> is followed by a rename in the original parent: on success the row is
  \<open>local_rename_success\<close> and the directory is at the original parent under the new name;
  on failure the row is \<open>total_failure\<close> and the directory is at its original path.  The
  directory still holds all it held unless the move raised after it had begun to copy:
  nothing undoes what a failed move has done, so after both stages fail the directory is
  untouched only when the move raised before changing anything.  When neither the
  destination nor the path of the local rename is the original path, the directory is at
  its original path exactly after the failure of the last stage.
\<close>

theorem staged_move_fallback:
  assumes "\<forall>row. env_log_writable env row"
  shows "\<exists>p. move_to_optimal_location env pe s optimal_parent name = Inr p
     \<and> pl_name p = name
     \<and> (pe_makedirs_ok pe \<and> pe_move pe = Moved \<longrightarrow>
           map le_user_action (pl_log p) = map le_user_action (log s) @ [''moved_successfully'']
           \<and> pl_directory_at p = (optimal_parent, name)
           \<and> pl_final_location p = (optimal_parent, name))
     \<and> (\<not> (pe_makedirs_ok pe \<and> pe_move pe = Moved) \<and> pe_rename_ok pe \<longrightarrow>
           map le_user_action (pl_log p)
             = map le_user_action (log s) @ [''move_failed'', ''local_rename_success'']
           \<and> pl_directory_at p = (fst (pe_target_directory pe), name)
           \<and> pl_final_location p = (fst (pe_target_directory pe), name))
     \<and> (\<not> (pe_makedirs_ok pe \<and> pe_move pe = Moved) \<and> \<not> pe_rename_ok pe \<longrightarrow>
           map le_user_action (pl_log p)
             = map le_user_action (log s) @ [''move_failed'', ''total_failure'']
           \<and> pl_directory_at p = pe_target_directory pe
           \<and> pl_final_location p = pe_target_directory pe)
     \<and> (pl_content_intact p \<longleftrightarrow> \<not> (pe_makedirs_ok pe \<and> pe_move pe = RaisedAfterCopying))
     \<and> ((optimal_parent, name) \<noteq> pe_target_directory pe
          \<and> (fst (pe_target_directory pe), name) \<noteq> pe_target_directory pe \<longrightarrow>
           (pl_directory_at p = pe_target_directory pe
              \<longleftrightarrow> \<not> (pe_makedirs_ok pe \<and> pe_move pe = Moved) \<and> \<not> pe_rename_ok pe))"
proof -
  from move_to_optimal_location_writable[OF assms, of pe s optimal_parent name]
  obtain p where r: "move_to_optimal_location env pe s optimal_parent name = Inr p"
    and n: "pl_name p = name"
    and i: "pl_content_intact p \<longleftrightarrow> \<not> (pe_makedirs_ok pe \<and> pe_move pe = RaisedAfterCopying)"
    and a: "pe_makedirs_ok pe \<and> pe_move pe = Moved \<longrightarrow>
           map le_user_action (pl_log p) = map le_user_action (log s) @ [''moved_successfully'']
           \<and> pl_directory_at p = (optimal_parent, name)
           \<and> pl_final_location p = (optimal_parent, name)"
    and b: "\<not> (pe_makedirs_ok pe \<and> pe_move pe = Moved) \<and> pe_rename_ok pe \<longrightarrow>
           map le_user_action (pl_log p)
             = map le_user_action (log s) @ [''move_failed'', ''local_rename_success'']
           \<and> pl_directory_at p = (fst (pe_target_directory pe), name)
           \<and> pl_final_location p = (fst (pe_target_directory pe), name)"
    and c: "\<not> (pe_makedirs_ok pe \<and> pe_move pe = Moved) \<and> \<not> pe_rename_ok pe \<longrightarrow>
           map le_user_action (pl_log p)
             = map le_user_action (log s) @ [''move_failed'', ''total_failure'']
           \<and> pl_directory_at p = pe_target_directory pe
           \<and> pl_final_location p = pe_target_directory pe"
    by (elim exE conjE)
  have d: "(optimal_parent, name) \<noteq> pe_target_directory pe
          \<and> (fst (pe_target_directory pe), name) \<noteq> pe_target_directory pe \<longrightarrow>
           (pl_directory_at p = pe_target_directory pe
              \<longleftrightarrow> \<not> (pe_makedirs_ok pe \<and> pe_move pe = Moved) \<and> \<not> pe_rename_ok pe)"
  proof (intro impI)
    assume ne: "(optimal_parent, name) \<noteq> pe_target_directory pe
          \<and> (fst (pe_target_directory pe), name) \<noteq> pe_target_directory pe"
    consider "pe_makedirs_ok pe \<and> pe_move pe = Moved"
      | "\<not> (pe_makedirs_ok pe \<and> pe_move pe = Moved)" "pe_rename_ok pe"
      | "\<not> (pe_makedirs_ok pe \<and> pe_move pe = Moved)" "\<not> pe_rename_ok pe"
      by blast
    then show "pl_directory_at p = pe_target_directory pe
              \<longleftrightarrow> \<not> (pe_makedirs_ok pe \<and> pe_move pe = Moved) \<and> \<not> pe_rename_ok pe"
    proof cases
      case 1
      with a have "pl_directory_at p = (optimal_parent, name)" by blast
      with ne 1 show ?thesis by simp
    next
      case 2
      with b have "pl_directory_at p = (fst (pe_target_directory pe), name)" by blast
      with ne 2 show ?thesis by simp
    next
      case 3
      with c have "pl_directory_at p = pe_target_directory pe" by blast
      with 3 show ?thesis by simp
    qed
  qed
  show ?thesis
    by (rule exI[of _ p], intro conjI) (rule r, rule n, rule a, rule b, rule c, rule i, rule d)
qed

theorem staged_move_fallback_witness:
  "(\<forall>row. env_log_writable here_env row)
   \<and> \<not> (pe_makedirs_ok here_place_env \<and> pe_move here_place_env = Moved)
   \<and> \<not> pe_rename_ok here_place_env
   \<and> (''/data/filetree/roots/documents'', ''notes'') \<noteq> pe_target_directory here_place_env
   \<and> (fst (pe_target_directory here_place_env), ''notes'') \<noteq> pe_target_directory here_place_env
   \<and> (\<exists>p. move_to_optimal_location here_env here_place_env (initial_state here_env)
             ''/data/filetree/roots/documents'' ''notes'' = Inr p
          \<and> map le_user_action (pl_log p) = [''move_failed'', ''total_failure'']
          \<and> pl_directory_at p = (''.'', [])
          \<and> pl_final_location p = (''.'', [])
          \<and> \<not> pl_content_intact p)"
proof -
  have w: "\<forall>row. env_log_writable here_env row" by (simp add: here_env_def)
  have f: "\<not> (pe_makedirs_ok here_place_env \<and> pe_move here_place_env = Moved)"
    and o: "\<not> pe_rename_ok here_place_env"
    and t: "pe_target_directory here_place_env = (''.'', [])"
    and k: "pe_makedirs_ok here_place_env \<and> pe_move here_place_env = RaisedAfterCopying"
    and n1: "(''/data/filetree/roots/documents'', ''notes'') \<noteq> pe_target_directory here_place_env"
    and n2: "(fst (pe_target_directory here_place_env), ''notes'')
               \<noteq> pe_target_directory here_place_env"
    by (simp_all add: here_place_env_def)
  have l: "log (initial_state here_env) = []" by (simp add: initial_state_def)
  from staged_move_fallback[OF w, of here_place_env "initial_state here_env"
      "''/data/filetree/roots/documents''" "''notes''"]
  obtain p where r: "move_to_optimal_location here_env here_place_env
        (initial_state here_env) ''/data/filetree/roots/documents'' ''notes'' = Inr p"
    and c: "\<not> (pe_makedirs_ok here_place_env \<and> pe_move here_place_env = Moved)
             \<and> \<not> pe_rename_ok here_place_env \<longrightarrow>
           map le_user_action (pl_log p)
             = map le_user_action (log (initial_state here_env))
                 @ [''move_failed'', ''total_failure'']
           \<and> pl_directory_at p = pe_target_directory here_place_env
           \<and> pl_final_location p = pe_target_directory here_place_env"
    and i: "pl_content_intact p
              \<longleftrightarrow> \<not> (pe_makedirs_ok here_place_env \<and> pe_move here_place_env = RaisedAfterCopying)"
    by (elim exE conjE)
  from c f o have "map le_user_action (pl_log p)
             = map le_user_action (log (initial_state here_env))
                 @ [''move_failed'', ''total_failure'']"
    and "pl_directory_at p = pe_target_directory here_place_env"
    and "pl_final_location p = pe_target_directory here_place_env"
    by blast+
  then have a: "map le_user_action (pl_log p) = [''move_failed'', ''total_failure'']"
    and d: "pl_directory_at p = (''.'', [])"
    and e: "pl_final_location p = (''.'', [])"
    unfolding l t by simp_all
  from i k have x: "\<not> pl_content_intact p" by blast
  have "\<exists>p. move_to_optimal_location here_env here_place_env (initial_state here_env)
             ''/data/filetree/roots/documents'' ''notes'' = Inr p
          \<and> map le_user_action (pl_log p) = [''move_failed'', ''total_failure'']
          \<and> pl_directory_at p = (''.'', [])
          \<and> pl_final_location p = (''.'', [])
          \<and> \<not> pl_content_intact p"
    by (rule exI[of _ p], intro conjI) (rule r, rule a, rule d, rule e, rule x)
  with w f o n1 n2 show ?thesis by (intro conjI)
qed

section \<open>The session started in the directory it is to move\<close>

lemma notes_reply_valid:
  "py_strip ''notes'' = ''notes''" "validate_directory_name ''notes''"
  by (simp_all add: py_strip_def py_isspace_def validate_directory_name_def re_match_camel_def
      re_dollar_def is_alnum_class_def is_lower_az_def is_upper_AZ_def is_digit_09_def
      code_point_def newline_def)

lemma here_not_news: "\<not> is_news_transcript_source (Some ''.'')"
  by (simp add: is_news_transcript_source_def replace_backslash_def Let_def startswith_def)

lemma notes_content_type: "content_type_match ''notes'' = Some ''notes''"
  by (simp add: content_type_match_def is_lower_az_def code_point_def)

lemma notes_unmapped: "map_of data_home_mapping ''notes'' = None"
  by (simp add: data_home_mapping_def)

lemma notes_parent:
  "determine_optimal_parent_directory ''notes'' ''/data'' (Some ''.'')
     = ''/data/filetree/roots/documents''"
  by (simp add: determine_optimal_parent_directory_def here_not_news notes_content_type
      notes_unmapped os_path_join_def path_join_step_def startswith_def endswith_def)

lemma here_generate:
  "generate_candidate here_env (initial_state here_env) =
     Inr \<lparr>retry_count = 0, feedback_history = [], current_analysis_data = (),
          new_directory_name = Some ''notes'',
          optimal_parent_path = Some ''/data/filetree/roots/documents'', log = [],
          calls = [\<lparr>call_attempt = 1, call_history = [], call_feedback = None\<rparr>]\<rparr>"
proof -
  have g: "generate_directory_name_with_feedback (Some (\<lambda>p. Reply ''notes'')) () None
             \<lparr>year = 2026, month = 11, day = 3\<rparr> = Some ''notes''"
    by (simp add: generate_directory_name_with_feedback_def notes_reply_valid Let_def)
  have gp: "generate_directory_name_and_path (Some (\<lambda>p. Reply ''notes'')) () ''/data''
              (Some ''.'') \<lparr>year = 2026, month = 11, day = 3\<rparr>
            = (Some ''notes'', Some ''/data/filetree/roots/documents'')"
    by (simp add: generate_directory_name_and_path_def
        generate_directory_name_and_path_with_feedback_def g notes_parent)
  have e: "truthy (env_data_home_root here_env)" "retry_count (initial_state here_env) = 0"
    "the_client here_env 0 = Some (\<lambda>p. Reply ''notes'')"
    "env_now here_env 0 = \<lparr>year = 2026, month = 11, day = 3\<rparr>"
    "or_empty (env_data_home_root here_env) = ''/data''"
    "env_directory_path here_env = ''.''"
    "current_analysis_data (initial_state here_env) = ()"
    by (simp_all add: here_env_def truthy_def or_empty_def initial_state_def the_client_def)
  show ?thesis
    by (simp add: generate_candidate_def Let_def e gp) (simp add: initial_state_def)
qed

lemma path_str_here:
  "path_str (''.'', []) = ''.''" "path_str (''.'', ''notes'') = ''notes''"
  "path_str (''/data/filetree/roots/documents'', ''notes'') = ''/data/filetree/roots/documents/notes''"
  "path_str (''./data//inbox/'', ''notes'') = ''data/inbox/notes''"
  by (simp_all add: path_str_def pathlib_str_def os_path_join_def path_join_step_def
      startswith_def endswith_def Let_def)

text \<open>
  The claim as stated fails: in that session the move raises after it has copied the
  files out of the directory, the local rename fails, and the rows are \<open>move_failed\<close> and
  \<open>total_failure\<close>.  The directory is at its original path, as the last row says, but it
  is not untouched: it no longer holds what it held.
\<close>

theorem failed_move_empties_the_directory:
  "pe_target_directory here_place_env = (''.'', [])
   \<and> pe_move here_place_env = RaisedAfterCopying
   \<and> placement_summary (name_and_place here_env here_place_env)
       = Some ([''accept'', ''move_failed'', ''total_failure''], (''.'', []), False)"
proof -
  let ?e = here_env and ?pe = here_place_env
  let ?g = "\<lparr>retry_count = 0, feedback_history = [], current_analysis_data = (),
          new_directory_name = Some ''notes'',
          optimal_parent_path = Some ''/data/filetree/roots/documents'', log = [],
          calls = [\<lparr>call_attempt = 1, call_history = [], call_feedback = None\<rparr>]\<rparr>"
  let ?s = "?g\<lparr>log := log ?g @ [decision_row ?e ?g ''accept'' []]\<rparr>"
  have tg: "pe_target_directory ?pe = (''.'', [])"
    and mv: "pe_move ?pe = RaisedAfterCopying"
    by (simp_all add: here_place_env_def)
  have w: "\<forall>row. env_log_writable ?e row" by (simp add: here_env_def)
  have t: "truthy (new_directory_name ?g)" by (simp add: truthy_def)
  have one: "env_satisfaction ?e (retry_count ?g) = One" by (simp add: here_env_def)
  have d: "decide ?e ?g = Inr (?s, Break)"
    unfolding decide_with_name[OF t] one using w by simp
  have b: "loop_body ?e (initial_state ?e) = Inr (?s, Break)"
    unfolding loop_body_def here_generate using d by simp
  have c: "retry_count (initial_state ?e) \<le> max_retries" by (simp add: initial_state_def)
  have run: "negotiation_loop ?e (initial_state ?e) = Inr ?s"
    using c b by (rule negotiation_loop_unfold_break)
  have la: "map le_user_action (log ?s) = [''accept'']" by simp
  have free: "resolve_conflict (\<lambda>n. pe_exists ?pe (''/data/filetree/roots/documents'', n)) ''notes''
      = Some ''notes''"
    by (rule resolve_conflict_free) (simp add: here_place_env_def)
  have f: "\<not> (pe_makedirs_ok ?pe \<and> pe_move ?pe = Moved)" and o: "\<not> pe_rename_ok ?pe"
    and k: "pe_makedirs_ok ?pe \<and> pe_move ?pe = RaisedAfterCopying"
    and cons: "pe_consent ?pe"
    by (simp_all add: here_place_env_def)
  from move_to_optimal_location_writable[OF w, of ?pe ?s "''/data/filetree/roots/documents''" "''notes''"]
  obtain p where r: "move_to_optimal_location ?e ?pe ?s ''/data/filetree/roots/documents'' ''notes''
        = Inr p"
    and i: "pl_content_intact p \<longleftrightarrow> \<not> (pe_makedirs_ok ?pe \<and> pe_move ?pe = RaisedAfterCopying)"
    and m: "\<not> (pe_makedirs_ok ?pe \<and> pe_move ?pe = Moved) \<and> \<not> pe_rename_ok ?pe \<longrightarrow>
           map le_user_action (pl_log p)
             = map le_user_action (log ?s) @ [''move_failed'', ''total_failure'']
           \<and> pl_directory_at p = pe_target_directory ?pe
           \<and> pl_final_location p = pe_target_directory ?pe"
    by (elim exE conjE)
  from m f o have "map le_user_action (pl_log p)
             = map le_user_action (log ?s) @ [''move_failed'', ''total_failure'']"
    and "pl_directory_at p = pe_target_directory ?pe"
    by blast+
  then have acts: "map le_user_action (pl_log p) = [''accept'', ''move_failed'', ''total_failure'']"
    and at: "pl_directory_at p = (''.'', [])"
    unfolding la tg by simp_all
  from i k have x: "pl_content_intact p = False" by blast
  have tr: "truthy (new_directory_name ?s)" "truthy (env_data_home_root ?e)"
    "truthy (optimal_parent_path ?s)"
    "or_empty (new_directory_name ?s) = ''notes''"
    "or_empty (optimal_parent_path ?s) = ''/data/filetree/roots/documents''"
    by (simp_all add: truthy_def or_empty_def here_env_def)
  have pl: "place ?e ?pe ?s = Some (Inr (Placed p))"
    unfolding place_def Let_def using tr free cons r
    by (simp only: if_True simp_thms option.case map_sum.simps not_True_eq_False if_False)
  have "placement_summary (name_and_place ?e ?pe)
       = Some (map le_user_action (pl_log p), pl_directory_at p, pl_content_intact p)"
    unfolding name_and_place_def run using pl by (simp add: placement_summary_def)
  then have "placement_summary (name_and_place ?e ?pe)
       = Some ([''accept'', ''move_failed'', ''total_failure''], (''.'', []), False)"
    unfolding acts at x .
  with tg mv show ?thesis by (intro conjI)
qed

section \<open>The analysis payload\<close>
























end
